theory Spec2Isabelle
  imports Main "HOL-Library.AList" "HOL-Library.Char_ord" "HOL-Library.List_Lexorder"
begin

unbundle bit_operations_syntax

section \<open>The systray command: a shallow embedding of cmd/systray/systray.go\<close>

text \<open>
  Go strings are byte sequences and are modelled as \<^typ>\<open>string\<close> (a list of 8-bit
  characters); \<open>len\<close> is \<^const>\<open>length\<close> and comparison is bytewise lexicographic.
  A pointer that may be nil is an option; a runtime panic is a value of type \<open>panic\<close>
  returned on the left of a sum.
\<close>

subsection \<open>The daemon's status, as far as the program reads it\<close>

text \<open>
  The types of \<open>ipnstate\<close> and \<open>tailcfg\<close> are declared outside this program; the records
  below carry the fields that systray.go reads. \<open>Status.Peer\<close> is a Go map from node key to
  \<open>*PeerStatus\<close>: the program only ranges over it, so it is modelled as the list of its
  values in the order in which a range statement visits them (an order the Go runtime
  chooses). Every result below holds for every such list. The entries are taken to be
  non-nil. A capability map is modelled by the list of its keys.
\<close>

type_synonym StableNodeID = string

record Location =
  Country :: string
  CountryCode :: string
  City :: string
  CityCode :: string
  Priority :: int

record PeerStatus =
  ID :: StableNodeID
  HostName :: string
  DNSName :: string
  TailscaleIPs :: "string list"
  Online :: bool
  ExitNodeOption :: bool
  Location :: "Location option"
  CapMap :: "string list"

record ExitNodeStatus =
  ExitNode_ID :: StableNodeID

record Status =
  Self :: "PeerStatus option"
  ExitNodeStatus :: "ExitNodeStatus option"
  Peer :: "PeerStatus list"

text \<open>The runtime panics that the program can raise.\<close>

datatype panic = NilPointerDereference | IndexOutOfRange

subsection \<open>countryFlag\<close>

text \<open>A rune is an int32; no arithmetic of \<open>countryFlag\<close> leaves the range of int32.\<close>

type_synonym rune = int

text \<open>
  The conversion \<open>string(r)\<close> of one rune: its UTF-8 encoding, where a rune outside the
  Unicode range or a surrogate is replaced by U+FFFD.
\<close>

definition encodeRune :: "rune \<Rightarrow> string" where
  "encodeRune r =
     (let n = nat r in
      if r < 0 \<or> 0x10FFFF < r \<or> (0xD800 \<le> r \<and> r \<le> 0xDFFF)
        then [char_of (0xEF :: nat), char_of (0xBF :: nat), char_of (0xBD :: nat)]
      else if n < 0x80 then [char_of n]
      else if n < 0x800 then [char_of (0xC0 + n div 64), char_of (0x80 + n mod 64)]
      else if n < 0x10000
        then [char_of (0xE0 + n div 4096), char_of (0x80 + n div 64 mod 64),
              char_of (0x80 + n mod 64)]
      else [char_of (0xF0 + n div 262144), char_of (0x80 + n div 4096 mod 64),
            char_of (0x80 + n div 64 mod 64), char_of (0x80 + n mod 64)])"

text \<open>\<open>string(runes)\<close> for a slice of runes.\<close>

definition runesToString :: "rune list \<Rightarrow> string" where
  "runesToString runes = concat (map encodeRune runes)"

text \<open>
  The loop \<open>for i := range 2\<close> of \<open>countryFlag\<close>. The byte \<open>b\<close> is \<open>code[i] | 32\<close>; it is
  below 256, and \<open>b - 'a'\<close> is only computed when \<open>'a' \<le> b\<close>, so the byte arithmetic
  never wraps and is written on \<^typ>\<open>nat\<close>.
\<close>

function countryFlag_loop :: "string \<Rightarrow> nat \<Rightarrow> rune list \<Rightarrow> string" where
  "countryFlag_loop code i runes =
     (if i < 2 then
        (let b = (of_char (code ! i) :: nat) OR 32 in
         if b < 97 \<or> b > 122 then []
         else countryFlag_loop code (i + 1) (runes @ [0x1F1E6 + int (b - 97)]))
      else runesToString runes)"
  by pat_completeness auto
termination
  by (relation "measure (\<lambda>(code, i, runes). 2 - i)") auto

definition countryFlag :: "string \<Rightarrow> string" where
  "countryFlag code = (if length code \<noteq> 2 then [] else countryFlag_loop code 0 [])"

subsection \<open>Notions used to state the properties of countryFlag\<close>

text \<open>An ASCII letter of either case, by its byte value.\<close>

definition isASCIILetter :: "char \<Rightarrow> bool" where
  "isASCIILetter c = ((65 \<le> (of_char c :: nat) \<and> (of_char c :: nat) \<le> 90) \<or>
                      (97 \<le> (of_char c :: nat) \<and> (of_char c :: nat) \<le> 122))"

text \<open>Lowercasing of one byte: the letters A to Z move to a to z, every other byte stays.\<close>

definition toLowerASCII :: "char \<Rightarrow> char" where
  "toLowerASCII c = (if 65 \<le> (of_char c :: nat) \<and> (of_char c :: nat) \<le> 90
                     then char_of ((of_char c :: nat) + 32) else c)"

text \<open>
  The UTF-8 bytes of the regional-indicator symbol of a letter: U+1F1E6 is the symbol of
  the letter a and is encoded as F0 9F 87 A6.
\<close>

definition regionalIndicator :: "char \<Rightarrow> string" where
  "regionalIndicator c =
     [char_of (0xF0 :: nat), char_of (0x9F :: nat), char_of (0x87 :: nat),
      char_of (0xA6 + ((of_char (toLowerASCII c) :: nat) - 97))]"

subsection \<open>newMullvadPeers\<close>

text \<open>
  A Go map with string keys is modelled as an association list with distinct keys: a lookup
  is \<^const>\<open>map_of\<close>, a store is \<^const>\<open>AList.update\<close> (which replaces the entry of a
  present key in place and appends an absent one), \<open>len\<close> is \<^const>\<open>length\<close>. The maps
  hold pointers to \<open>mvCountry\<close> and \<open>mvCity\<close> values that the loop mutates; the model
  writes the changed value back into the list.
\<close>

record mvCity =
  city_name :: string
  city_best :: "PeerStatus option"
  city_peers :: "PeerStatus list"

record mvCountry =
  country_code :: string
  country_name :: string
  country_best :: "PeerStatus option"
  country_cities :: "(string \<times> mvCity) list"

record mullvadPeers =
  countries :: "(string \<times> mvCountry) list"

text \<open>
  The condition \<open>best == nil || ps.Location.Priority > best.Location.Priority\<close>, for a peer
  \<open>ps\<close> whose location is \<open>loc\<close>. Reading the priority of a best peer that has no location
  dereferences nil.
\<close>

definition higherPriority :: "Location \<Rightarrow> PeerStatus option \<Rightarrow> panic + bool" where
  "higherPriority loc best =
     (case best of
        None \<Rightarrow> Inr True
      | Some b \<Rightarrow>
          (case Location b of
             None \<Rightarrow> Inl NilPointerDereference
           | Some bl \<Rightarrow> Inr (Priority loc > Priority bl)))"

text \<open>The body of the loop of \<open>newMullvadPeers\<close>, for a peer that was not skipped.\<close>

definition newMullvadPeers_body ::
  "PeerStatus \<Rightarrow> (string \<times> mvCountry) list \<Rightarrow> panic + (string \<times> mvCountry) list" where
  "newMullvadPeers_body ps cs =
     (case Location ps of
        None \<Rightarrow> Inl NilPointerDereference
      | Some loc \<Rightarrow>
          (let country = (case map_of cs (CountryCode loc) of
                            Some c \<Rightarrow> c
                          | None \<Rightarrow> \<lparr>country_code = CountryCode loc, country_name = Country loc,
                                      country_best = None, country_cities = []\<rparr>);
               city = (case map_of (country_cities country) (CityCode loc) of
                         Some c \<Rightarrow> c
                       | None \<Rightarrow> \<lparr>city_name = City loc, city_best = None, city_peers = []\<rparr>);
               city1 = city\<lparr>city_peers := city_peers city @ [ps]\<rparr>
           in case higherPriority loc (city_best city1) of
                Inl e \<Rightarrow> Inl e
              | Inr cityWins \<Rightarrow>
                  (let city2 = (if cityWins then city1\<lparr>city_best := Some ps\<rparr> else city1)
                   in case higherPriority loc (country_best country) of
                        Inl e \<Rightarrow> Inl e
                      | Inr countryWins \<Rightarrow>
                          (let country1 =
                                 (if countryWins then country\<lparr>country_best := Some ps\<rparr>
                                  else country);
                               country2 = country1\<lparr>country_cities :=
                                 AList.update (CityCode loc) city2 (country_cities country1)\<rparr>
                           in Inr (AList.update (CountryCode loc) country2 cs)))))"

text \<open>The loop over \<open>status.Peer\<close>, with its \<open>continue\<close> for a peer that does not qualify.\<close>

fun newMullvadPeers_loop ::
  "PeerStatus list \<Rightarrow> (string \<times> mvCountry) list \<Rightarrow> panic + (string \<times> mvCountry) list" where
  "newMullvadPeers_loop [] cs = Inr cs"
| "newMullvadPeers_loop (ps # rest) cs =
     (if \<not> ExitNodeOption ps \<or> Location ps = None then newMullvadPeers_loop rest cs
      else case newMullvadPeers_body ps cs of
             Inl e \<Rightarrow> Inl e
           | Inr cs' \<Rightarrow> newMullvadPeers_loop rest cs')"

text \<open>The status argument is the non-nil status that the caller has already read.\<close>

definition newMullvadPeers :: "Status \<Rightarrow> panic + mullvadPeers" where
  "newMullvadPeers status =
     (case newMullvadPeers_loop (Peer status) [] of
        Inl e \<Rightarrow> Inl e
      | Inr cs \<Rightarrow> Inr \<lparr>countries = cs\<rparr>)"

subsection \<open>The menu toolkit\<close>

text \<open>
  The toolkit (fyne.io/systray) is a library outside this program. A menu entry is modelled
  by the attributes that the program sets: title, tooltip, whether it is a checkbox, its
  check mark, whether it is disabled or hidden, the listener task that \<open>onClick\<close> or the
  account loop of \<open>rebuild\<close> starts for it, and its sub-entries in the order of their
  creation. The toolkit attaches a sub-entry to its parent when it is created and the
  program mutates it afterwards; the model finishes the sub-entry first and then attaches
  it, which gives the same tree. The pauses \<open>time.Sleep(newMenuDelay)\<close> leave no trace in
  the tree and are left out.
\<close>

type_synonym ProfileID = string

datatype listener = SendExitNode StableNodeID | SendAccount ProfileID

datatype MenuItem =
    MenuItem (title: string) (tooltip: string) (isCheckbox: bool) (checked: bool)
             (disabled: bool) (hidden: bool) (listener: "listener option")
             (children: "MenuItem list")
  | Separator
where
  "title Separator = []"
| "tooltip Separator = []"
| "isCheckbox Separator = False"
| "checked Separator = False"
| "disabled Separator = False"
| "hidden Separator = False"
| "listener Separator = None"
| "children Separator = []"

definition AddMenuItem :: "string \<Rightarrow> string \<Rightarrow> MenuItem" where
  "AddMenuItem t tip = MenuItem t tip False False False False None []"

definition AddSubMenuItem :: "string \<Rightarrow> string \<Rightarrow> MenuItem" where
  "AddSubMenuItem t tip = MenuItem t tip False False False False None []"

definition AddSubMenuItemCheckbox :: "string \<Rightarrow> string \<Rightarrow> bool \<Rightarrow> MenuItem" where
  "AddSubMenuItemCheckbox t tip c = MenuItem t tip True c False False None []"

fun Check :: "MenuItem \<Rightarrow> MenuItem" where
  "Check (MenuItem t tip cb c d h l ch) = MenuItem t tip cb True d h l ch"
| "Check Separator = Separator"

fun Disable :: "MenuItem \<Rightarrow> MenuItem" where
  "Disable (MenuItem t tip cb c d h l ch) = MenuItem t tip cb c True h l ch"
| "Disable Separator = Separator"

fun Enable :: "MenuItem \<Rightarrow> MenuItem" where
  "Enable (MenuItem t tip cb c d h l ch) = MenuItem t tip cb c False h l ch"
| "Enable Separator = Separator"

fun Hide :: "MenuItem \<Rightarrow> MenuItem" where
  "Hide (MenuItem t tip cb c d h l ch) = MenuItem t tip cb c d True l ch"
| "Hide Separator = Separator"

fun Show :: "MenuItem \<Rightarrow> MenuItem" where
  "Show (MenuItem t tip cb c d h l ch) = MenuItem t tip cb c d False l ch"
| "Show Separator = Separator"

fun SetTitle :: "string \<Rightarrow> MenuItem \<Rightarrow> MenuItem" where
  "SetTitle t' (MenuItem t tip cb c d h l ch) = MenuItem t' tip cb c d h l ch"
| "SetTitle t' Separator = Separator"

fun listen :: "listener \<Rightarrow> MenuItem \<Rightarrow> MenuItem" where
  "listen l' (MenuItem t tip cb c d h l ch) = MenuItem t tip cb c d h (Some l') ch"
| "listen l' Separator = Separator"

fun addChild :: "MenuItem \<Rightarrow> MenuItem \<Rightarrow> MenuItem" where
  "addChild (MenuItem t tip cb c d h l ch) x = MenuItem t tip cb c d h l (ch @ [x])"
| "addChild Separator x = Separator"

subsection \<open>rebuildExitNodeMenu\<close>

text \<open>Go error values; \<open>Wrapped\<close> is an error made by \<open>fmt.Errorf\<close> with the verb \<open>%w\<close>.\<close>

datatype err = Canceled | Failure string | Wrapped string err

text \<open>The answer of \<open>localClient.SuggestExitNode\<close>, as far as the program reads it.\<close>

record Suggestion =
  Sugg_ID :: StableNodeID
  Sugg_Name :: string
  Sugg_Location :: "Location option"

text \<open>
  The closure \<open>onClick\<close> starts a listener task that sends \<open>nodeID\<close> on the exit-node
  channel for every click on the entry.
\<close>

definition onClick :: "MenuItem \<Rightarrow> StableNodeID \<Rightarrow> MenuItem" where
  "onClick item nodeID = listen (SendExitNode nodeID) item"

text \<open>\<open>strings.Split(s, ".")[0]\<close>: the text before the first dot.\<close>

definition firstLabel :: "string \<Rightarrow> string" where
  "firstLabel s = takeWhile (\<lambda>c. c \<noteq> CHR ''.'') s"

text \<open>The test \<open>status.ExitNodeStatus != nil && id == status.ExitNodeStatus.ID\<close>.\<close>

definition isActive :: "Status \<Rightarrow> StableNodeID \<Rightarrow> bool" where
  "isActive status nodeID =
     (case ExitNodeStatus status of None \<Rightarrow> False | Some es \<Rightarrow> nodeID = ExitNode_ID es)"

definition noExitNodeMenu :: "Status \<Rightarrow> MenuItem" where
  "noExitNodeMenu status =
     onClick (AddSubMenuItemCheckbox ''None'' [] (ExitNodeStatus status = None)) []"

text \<open>
  The block "Show recommended exit node if available". The capability name
  \<open>tailcfg.NodeAttrSuggestExitNodeUI\<close> is a constant declared outside this program and is the
  parameter \<open>attr\<close>; \<open>suggestion\<close> is the pair that \<open>localClient.SuggestExitNode\<close> returns.
\<close>

definition recommended ::
  "string \<Rightarrow> Suggestion \<times> err option \<Rightarrow> Status \<Rightarrow> PeerStatus \<Rightarrow> MenuItem list" where
  "recommended attr suggestion status self =
     (if attr \<in> set (CapMap self) then
        (case suggestion of
           (sugg, None) \<Rightarrow>
             (let title = ''Recommended: '' @
                    (case Sugg_Location sugg of
                       Some loc \<Rightarrow>
                         if Country loc \<noteq> []
                         then countryFlag (CountryCode loc) @ '' '' @ Country loc @ '': '' @
                              City loc
                         else firstLabel (Sugg_Name sugg)
                     | None \<Rightarrow> firstLabel (Sugg_Name sugg));
                  rm = onClick (AddSubMenuItemCheckbox title [] False) (Sugg_ID sugg)
              in [Separator, if isActive status (Sugg_ID sugg) then Check rm else rm])
         | (sugg, Some e) \<Rightarrow> [])
      else [])"

text \<open>The block "Add tailnet exit nodes if present": its second loop over \<open>status.Peer\<close>.\<close>

fun tailnet_loop :: "Status \<Rightarrow> PeerStatus list \<Rightarrow> MenuItem list" where
  "tailnet_loop status [] = []"
| "tailnet_loop status (ps # rest) =
     (if \<not> ExitNodeOption ps \<or> Location ps \<noteq> None then tailnet_loop status rest
      else
        (let name = firstLabel (DNSName ps);
             name = (if \<not> Online ps then name @ '' (offline)'' else name);
             sm = AddSubMenuItemCheckbox name [] False;
             sm = (if \<not> Online ps then Disable sm else sm);
             sm = (if isActive status (ID ps) then Check sm else sm);
             sm = onClick sm (ID ps)
         in sm # tailnet_loop status rest))"

definition tailnet :: "Status \<Rightarrow> MenuItem list" where
  "tailnet status =
     (let tailnetExitNodes = filter (\<lambda>ps. ExitNodeOption ps \<and> Location ps = None) (Peer status)
      in if length tailnetExitNodes > 0
         then [Separator, Disable (AddSubMenuItem ''Tailnet Exit Nodes'' [])] @
              tailnet_loop status (Peer status)
         else [])"

text \<open>
  \<open>sortedCountries\<close> and \<open>sortedCities\<close> collect the values of a map and sort them by name.
  The order among equal names is not determined by the program; the model sorts by
  insertion.
\<close>

definition sortedCountries :: "mullvadPeers \<Rightarrow> mvCountry list" where
  "sortedCountries mp = sort_key country_name (map snd (countries mp))"

definition sortedCities :: "mvCountry \<Rightarrow> mvCity list" where
  "sortedCities mc = sort_key city_name (map snd (country_cities mc))"

text \<open>
  The check loops of the single-city branch, run when \<open>status.ExitNodeStatus\<close> is non-nil
  and has the id \<open>exitID\<close>: over the peers of a city, and over the cities of the country.
\<close>

fun checkPeers2 ::
  "StableNodeID \<Rightarrow> PeerStatus list \<Rightarrow> MenuItem \<times> MenuItem \<Rightarrow> MenuItem \<times> MenuItem" where
  "checkPeers2 exitID [] (mullvadMenu, countryMenu) = (mullvadMenu, countryMenu)"
| "checkPeers2 exitID (ps # rest) (mullvadMenu, countryMenu) =
     checkPeers2 exitID rest
       (if exitID = ID ps then (Check mullvadMenu, Check countryMenu)
        else (mullvadMenu, countryMenu))"

fun checkCities2 ::
  "StableNodeID \<Rightarrow> mvCity list \<Rightarrow> MenuItem \<times> MenuItem \<Rightarrow> MenuItem \<times> MenuItem" where
  "checkCities2 exitID [] menus = menus"
| "checkCities2 exitID (city # rest) menus =
     checkCities2 exitID rest (checkPeers2 exitID (city_peers city) menus)"

text \<open>The check loop over the peers of a city in the multi-city branch.\<close>

fun checkPeers3 ::
  "StableNodeID \<Rightarrow> PeerStatus list \<Rightarrow> MenuItem \<times> MenuItem \<times> MenuItem \<Rightarrow>
   MenuItem \<times> MenuItem \<times> MenuItem" where
  "checkPeers3 exitID [] (mullvadMenu, countryMenu, cityMenu) =
     (mullvadMenu, countryMenu, cityMenu)"
| "checkPeers3 exitID (ps # rest) (mullvadMenu, countryMenu, cityMenu) =
     checkPeers3 exitID rest
       (if exitID = ID ps then (Check mullvadMenu, Check countryMenu, Check cityMenu)
        else (mullvadMenu, countryMenu, cityMenu))"

text \<open>The loop over \<open>country.sortedCities()\<close>; \<open>city.best.ID\<close> dereferences \<open>city.best\<close>.\<close>

fun cities_loop ::
  "Status \<Rightarrow> mvCity list \<Rightarrow> MenuItem \<times> MenuItem \<Rightarrow> panic + MenuItem \<times> MenuItem" where
  "cities_loop status [] (mullvadMenu, countryMenu) = Inr (mullvadMenu, countryMenu)"
| "cities_loop status (city # rest) (mullvadMenu, countryMenu) =
     (case city_best city of
        None \<Rightarrow> Inl NilPointerDereference
      | Some b \<Rightarrow>
          (let cityMenu = onClick (AddSubMenuItemCheckbox (city_name city) [] False) (ID b)
           in case (case ExitNodeStatus status of
                      None \<Rightarrow> (mullvadMenu, countryMenu, cityMenu)
                    | Some es \<Rightarrow> checkPeers3 (ExitNode_ID es) (city_peers city)
                                  (mullvadMenu, countryMenu, cityMenu)) of
                (mullvadMenu', countryMenu', cityMenu') \<Rightarrow>
                  cities_loop status rest (mullvadMenu', addChild countryMenu' cityMenu')))"

text \<open>
  The loop over \<open>mullvadExitNodes.sortedCountries()\<close>; \<open>country.best.ID\<close> dereferences
  \<open>country.best\<close>. In the single-city branch the inner loop ranges over the map
  \<open>country.cities\<close>.
\<close>

fun countries_loop :: "Status \<Rightarrow> mvCountry list \<Rightarrow> MenuItem \<Rightarrow> panic + MenuItem" where
  "countries_loop status [] mullvadMenu = Inr mullvadMenu"
| "countries_loop status (country # rest) mullvadMenu =
     (let flag = countryFlag (country_code country);
          countryMenu = AddSubMenuItemCheckbox (flag @ '' '' @ country_name country) [] False
      in if length (country_cities country) = 1 then
           (case country_best country of
              None \<Rightarrow> Inl NilPointerDereference
            | Some b \<Rightarrow>
                (case (case ExitNodeStatus status of
                         None \<Rightarrow> (mullvadMenu, onClick countryMenu (ID b))
                       | Some es \<Rightarrow> checkCities2 (ExitNode_ID es)
                                     (map snd (country_cities country))
                                     (mullvadMenu, onClick countryMenu (ID b))) of
                   (mullvadMenu', countryMenu') \<Rightarrow>
                     countries_loop status rest (addChild mullvadMenu' countryMenu')))
         else
           (case country_best country of
              None \<Rightarrow> Inl NilPointerDereference
            | Some b \<Rightarrow>
                (let bm = onClick (AddSubMenuItemCheckbox ''Best Available'' [] False) (ID b);
                     countryMenu = addChild (addChild countryMenu bm) Separator
                 in case cities_loop status (sortedCities country) (mullvadMenu, countryMenu) of
                      Inl e \<Rightarrow> Inl e
                    | Inr (mullvadMenu', countryMenu') \<Rightarrow>
                        countries_loop status rest (addChild mullvadMenu' countryMenu'))))"

text \<open>
  The block "Add mullvad exit nodes if present". Without the capability the grouping is
  the zero value, whose map is nil and has length 0.
\<close>

definition mullvad :: "Status \<Rightarrow> PeerStatus \<Rightarrow> panic + MenuItem list" where
  "mullvad status self =
     (case (if ''mullvad'' \<in> set (CapMap self) then newMullvadPeers status
            else Inr \<lparr>countries = []\<rparr>) of
        Inl e \<Rightarrow> Inl e
      | Inr mullvadExitNodes \<Rightarrow>
          if length (countries mullvadExitNodes) > 0 then
            (case countries_loop status (sortedCountries mullvadExitNodes)
                    (AddSubMenuItemCheckbox ''Mullvad VPN'' [] False) of
               Inl e \<Rightarrow> Inl e
             | Inr mullvadMenu \<Rightarrow>
                 Inr [Separator, Disable (AddSubMenuItem ''Location-based Exit Nodes'' []),
                      mullvadMenu])
          else Inr [])"

text \<open>
  \<open>rebuildExitNodeMenu\<close> reads \<open>menu.status\<close>, which is nil when the status could not be
  fetched: \<open>status.ExitNodeStatus\<close> and \<open>status.Self.CapMap\<close> dereference it. The result is
  the entry "Exit Nodes" with its sub-entries.
\<close>

definition rebuildExitNodeMenu ::
  "string \<Rightarrow> Suggestion \<times> err option \<Rightarrow> Status option \<Rightarrow> panic + MenuItem" where
  "rebuildExitNodeMenu attr suggestion st =
     (case st of
        None \<Rightarrow> Inl NilPointerDereference
      | Some status \<Rightarrow>
          (case Self status of
             None \<Rightarrow> Inl NilPointerDereference
           | Some self \<Rightarrow>
               (case mullvad status self of
                  Inl e \<Rightarrow> Inl e
                | Inr mullvadItems \<Rightarrow>
                    Inr (MenuItem ''Exit Nodes'' [] False False False False None
                          (noExitNodeMenu status # recommended attr suggestion status self @
                           tailnet status @ mullvadItems)))))"

subsection \<open>The daemon and the effects of the program\<close>

text \<open>
  The states of the daemon's backend (\<open>ipn.State\<close>); \<open>NoState\<close> is its zero value.
\<close>

datatype ipnState =
  NoState | InUseOtherUser | NeedsLogin | NeedsMachineAuth | Stopped | Starting | Running

text \<open>
  A login profile and the snapshot that \<open>fetchState\<close> returns, as far as the program
  reads them. \<open>status\<close> is a pointer and may be nil.
\<close>

record LoginProfile =
  Profile_ID :: ProfileID
  Profile_Name :: string
  Profile_DomainName :: string
  Profile_PicURL :: string

record state =
  state_status :: "Status option"
  state_curProfile :: LoginProfile
  state_allProfiles :: "LoginProfile list"

text \<open>
  The fields of \<open>ipn.MaskedPrefs\<close> that the program sets; \<open>zeroPrefs\<close> is the zero value that
  a composite literal starts from.
\<close>

record MaskedPrefs =
  WantRunning :: bool
  WantRunningSet :: bool
  ExitNodeID :: StableNodeID
  ExitNodeIDSet :: bool

definition zeroPrefs :: MaskedPrefs where
  "zeroPrefs = \<lparr>WantRunning = False, WantRunningSet = False, ExitNodeID = [],
                 ExitNodeIDSet = False\<rparr>"

text \<open>
  The local client talks to a daemon outside this program. What the daemon answers is a
  parameter of the model: one answer for each request that the program makes during one
  step. An answer with an error carries whatever value came with it.
\<close>

record daemon =
  StatusResult :: "Status option \<times> err option"
  ProfileStatusResult :: "LoginProfile \<times> LoginProfile list \<times> err option"
  SuggestExitNodeResult :: "Suggestion \<times> err option"
  EditPrefsResult :: "err option"
  SetUseExitNodeResult :: "err option"
  SwitchProfileResult :: "err option"

text \<open>
  The effects of the program on the outside, in the order in which they happen: the tray
  icon, the log, the requests to the daemon, the state queue \<open>chState\<close>, the pauses of
  the watcher, the cancellation of the previous event loop and the start of a new one, the
  browser and the clipboard. \<open>LogPrint\<close> carries the fixed text of the message and the error
  that is printed with it, if any.
\<close>

datatype icon = IconDisconnected | IconLoading | IconConnected

datatype call =
    SetAppIcon icon
  | LogPrint string "err option"
  | LogFatal string err
  | ClientStatus
  | ClientProfileStatus
  | ClientSuggestExitNode
  | ClientEditPrefs MaskedPrefs
  | ClientSetUseExitNode bool
  | ClientSwitchProfile ProfileID
  | ClientWatchIPNBus
  | WatcherClose
  | SendState ipnState
  | Sleep int
  | EventCancel
  | SystrayResetMenu
  | StartEventLoop
  | SystrayQuit
  | OpenBrowser string
  | CopyAddress string string

subsection \<open>Menu.rebuild\<close>

text \<open>
  The \<open>Menu\<close> struct. Its entries are pointers that are nil until \<open>rebuild\<close> has created
  them; \<open>menu_root\<close> records which entries and separators the root of the tray holds, in
  the order of their creation since the last \<open>systray.ResetMenu\<close>; \<open>menu_eventCancel\<close> tells
  whether \<open>eventCancel\<close> is non-nil. The mutex and the two click queues carry no data of
  their own and are left out, as are the icons that \<open>setRemoteIcon\<close> downloads.
\<close>

datatype slot =
  SlotConnect | SlotDisconnect | SlotSeparator | SlotAccounts | SlotSelf | SlotExitNodes |
  SlotMore | SlotQuit

record Menu =
  menu_root :: "slot list"
  menu_status :: "Status option"
  menu_connect :: "MenuItem option"
  menu_disconnect :: "MenuItem option"
  menu_accounts :: "MenuItem option"
  menu_self :: "MenuItem option"
  menu_more :: "MenuItem option"
  menu_exitNodes :: "MenuItem option"
  menu_quit :: "MenuItem option"
  menu_eventCancel :: bool

definition newMenu :: Menu where
  "newMenu = \<lparr>menu_root = [], menu_status = None, menu_connect = None, menu_disconnect = None,
               menu_accounts = None, menu_self = None, menu_more = None,
               menu_exitNodes = None, menu_quit = None, menu_eventCancel = False\<rparr>"

text \<open>
  \<open>if err != nil { log.Print(err) }\<close>, and its variants with a message.
\<close>

definition logIfError :: "string \<Rightarrow> err option \<Rightarrow> call list" where
  "logIfError msg r = (case r of None \<Rightarrow> [] | Some e \<Rightarrow> [LogPrint msg (Some e)])"

text \<open>
  \<open>fetchState\<close>: both requests are made and both errors are only logged; the status is
  returned as it came, nil included.
\<close>

definition fetchState :: "daemon \<Rightarrow> call list \<times> state" where
  "fetchState d =
     (case StatusResult d of
        (status, err) \<Rightarrow>
          (case ProfileStatusResult d of
             (curProfile, allProfiles, err') \<Rightarrow>
               ([ClientStatus] @ logIfError [] err @ [ClientProfileStatus] @ logIfError [] err',
                \<lparr>state_status = status, state_curProfile = curProfile,
                 state_allProfiles = allProfiles\<rparr>)))"

definition profileTitle :: "LoginProfile \<Rightarrow> string" where
  "profileTitle profile =
     (if Profile_DomainName profile \<noteq> []
      then Profile_Name profile @ [CHR 0x0A] @ Profile_DomainName profile
      else Profile_Name profile)"

definition accountItem :: "LoginProfile \<Rightarrow> LoginProfile \<Rightarrow> MenuItem" where
  "accountItem curProfile profile =
     listen (SendAccount (Profile_ID profile))
       (if Profile_ID profile = Profile_ID curProfile
        then AddSubMenuItemCheckbox (profileTitle profile) [] True
        else AddSubMenuItem (profileTitle profile) [])"

text \<open>
  The entry of this device in \<open>rebuild\<close>: it is only added when the status and its own
  node are non-nil, and \<open>TailscaleIPs[0]\<close> panics on an empty slice.
\<close>

definition selfItem :: "state \<Rightarrow> panic + MenuItem option" where
  "selfItem st =
     (case state_status st of
        None \<Rightarrow> Inr None
      | Some status \<Rightarrow>
          (case Self status of
             None \<Rightarrow> Inr None
           | Some self \<Rightarrow>
               (case TailscaleIPs self of
                  [] \<Rightarrow> Inl IndexOutOfRange
                | ip # _ \<Rightarrow>
                    Inr (Some (AddMenuItem
                      (''This Device: '' @ HostName self @ '' ('' @ ip @ '')'') [])))))"

text \<open>
  \<open>rebuild\<close>, with the snapshot as its argument. \<open>rebuildExitNodeMenu\<close> is called whether
  or not the status is nil; a panic leaves the entries created so far in the tray and
  skips the rest of the function, so the entries More settings and Quit and the new event
  loop only exist when the exit-node menu has been built.
\<close>

definition rebuild :: "string \<Rightarrow> daemon \<Rightarrow> Menu \<Rightarrow> state \<Rightarrow> call list \<times> (panic + Menu)" where
  "rebuild attr d menu st =
     (let calls = (if menu_eventCancel menu then [EventCancel] else []) @ [SystrayResetMenu];
          account = (if profileTitle (state_curProfile st) \<noteq> []
                     then profileTitle (state_curProfile st) else ''Account'');
          accounts = foldl addChild (AddMenuItem account [])
                       (map (accountItem (state_curProfile st)) (state_allProfiles st));
          menu1 = menu\<lparr>menu_eventCancel := True, menu_status := state_status st,
                        menu_connect := Some (AddMenuItem ''Connect'' []),
                        menu_disconnect := Some (Hide (AddMenuItem ''Disconnect'' [])),
                        menu_accounts := Some accounts,
                        menu_root := [SlotConnect, SlotDisconnect, SlotSeparator, SlotAccounts]\<rparr>
      in case selfItem st of
           Inl e \<Rightarrow> (calls, Inl e)
         | Inr added \<Rightarrow>
             (let menu2 = (case added of
                             None \<Rightarrow> menu1\<lparr>menu_root := menu_root menu1 @ [SlotSeparator]\<rparr>
                           | Some item \<Rightarrow>
                               menu1\<lparr>menu_self := Some item,
                                     menu_root := menu_root menu1 @ [SlotSelf, SlotSeparator]\<rparr>);
                  suggests = (case menu_status menu2 of
                                None \<Rightarrow> False
                              | Some status \<Rightarrow>
                                  (case Self status of
                                     None \<Rightarrow> False
                                   | Some s \<Rightarrow> attr \<in> set (CapMap s)));
                  calls2 = calls @ (if suggests then [ClientSuggestExitNode] else [])
              in case rebuildExitNodeMenu attr (SuggestExitNodeResult d) (menu_status menu2) of
                   Inl e \<Rightarrow> (calls2, Inl e)
                 | Inr exitNodes \<Rightarrow>
                     (calls2 @ [StartEventLoop],
                      Inr (menu2\<lparr>menu_exitNodes := Some exitNodes,
                                  menu_more := Some (Enable (AddMenuItem ''More settings'' [])),
                                  menu_quit := Some (Enable (AddMenuItem ''Quit''
                                                       ''Quit the app'')),
                                  menu_root := menu_root menu2 @
                                    [SlotExitNodes, SlotMore, SlotQuit]\<rparr>))))"

subsection \<open>Menu.eventLoop\<close>

text \<open>
  One iteration of the loop of \<open>eventLoop\<close> is one step, from the event that its
  \<open>select\<close> receives. Which of several ready events is received is the choice of the Go
  runtime and not modelled: the event is the argument of the step. The step returns the
  effects and whether the loop goes on, returns or panics.
\<close>

datatype event =
    StateChange ipnState
  | ConnectClicked
  | DisconnectClicked
  | SelfClicked
  | MoreClicked
  | AccountSelected ProfileID
  | ExitNodeSelected StableNodeID
  | QuitClicked
  | Cancelled

datatype outcome = Continue Menu | Returned | Panicked panic

text \<open>
  The \<open>select\<close> statement reads the field \<open>ClickedCh\<close> of the entries connect, disconnect,
  self, more and quit, which dereferences each of them.
\<close>

definition selectable :: "Menu \<Rightarrow> bool" where
  "selectable menu =
     (menu_connect menu \<noteq> None \<and> menu_disconnect menu \<noteq> None \<and> menu_self menu \<noteq> None \<and>
      menu_more menu \<noteq> None \<and> menu_quit menu \<noteq> None)"

text \<open>
  A method call on \<open>menu.connect\<close> and on \<open>menu.disconnect\<close>.
\<close>

definition updConnect :: "(MenuItem \<Rightarrow> MenuItem) \<Rightarrow> Menu \<Rightarrow> panic + Menu" where
  "updConnect f menu =
     (case menu_connect menu of
        None \<Rightarrow> Inl NilPointerDereference
      | Some item \<Rightarrow> Inr (menu\<lparr>menu_connect := Some (f item)\<rparr>))"

definition updDisconnect :: "(MenuItem \<Rightarrow> MenuItem) \<Rightarrow> Menu \<Rightarrow> panic + Menu" where
  "updDisconnect f menu =
     (case menu_disconnect menu of
        None \<Rightarrow> Inl NilPointerDereference
      | Some item \<Rightarrow> Inr (menu\<lparr>menu_disconnect := Some (f item)\<rparr>))"

text \<open>
  \<open>copyTailscaleIP\<close>: nothing is copied for a nil device or one without addresses.
  The effect carries the first label of the DNS name and the address; the clipboard and the
  notification service lie outside the program, and their failures, which are only logged,
  are left out.
\<close>

definition copyTailscaleIP :: "PeerStatus option \<Rightarrow> call list" where
  "copyTailscaleIP device =
     (case device of
        None \<Rightarrow> []
      | Some dev \<Rightarrow>
          (case TailscaleIPs dev of
             [] \<Rightarrow> []
           | ip # _ \<Rightarrow> [CopyAddress (firstLabel (DNSName dev)) ip]))"

text \<open>
  \<open>menu.rebuild(fetchState(ctx))\<close>.
\<close>

definition rebuildFetched :: "string \<Rightarrow> daemon \<Rightarrow> Menu \<Rightarrow> call list \<times> (panic + Menu)" where
  "rebuildFetched attr d menu =
     (case fetchState d of
        (fetchCalls, st) \<Rightarrow>
          (case rebuild attr d menu st of
             (rebuildCalls, result) \<Rightarrow> (fetchCalls @ rebuildCalls, result)))"

text \<open>
  The case \<open>state := <-chState\<close>. The \<open>switch\<close> has no default: any other state does
  nothing.
\<close>

definition onState :: "string \<Rightarrow> daemon \<Rightarrow> Menu \<Rightarrow> ipnState \<Rightarrow> call list \<times> outcome" where
  "onState attr d menu s =
     (if s = Running then
        (case rebuildFetched attr d menu of
           (calls, Inl e) \<Rightarrow> (SetAppIcon IconLoading # calls, Panicked e)
         | (calls, Inr menu1) \<Rightarrow>
             (case updConnect (Disable \<circ> SetTitle ''Connected'') menu1 of
                Inl e \<Rightarrow> (SetAppIcon IconLoading # calls @ [SetAppIcon IconConnected], Panicked e)
              | Inr menu2 \<Rightarrow>
                  (case updDisconnect (Enable \<circ> Show) menu2 of
                     Inl e \<Rightarrow>
                       (SetAppIcon IconLoading # calls @ [SetAppIcon IconConnected], Panicked e)
                   | Inr menu3 \<Rightarrow>
                       (SetAppIcon IconLoading # calls @ [SetAppIcon IconConnected],
                        Continue menu3))))
      else if s = NoState \<or> s = Stopped then
        (case updConnect (Enable \<circ> SetTitle ''Connect'') menu of
           Inl e \<Rightarrow> ([], Panicked e)
         | Inr menu1 \<Rightarrow>
             (case updDisconnect Hide menu1 of
                Inl e \<Rightarrow> ([], Panicked e)
              | Inr menu2 \<Rightarrow> ([SetAppIcon IconDisconnected], Continue menu2)))
      else if s = Starting then ([SetAppIcon IconLoading], Continue menu)
      else ([], Continue menu))"

text \<open>
  The case \<open>exitNode := <-menu.exitNodeCh\<close>; \<open>IsZero\<close> is the test for the empty id.
\<close>

definition onExitNode :: "string \<Rightarrow> daemon \<Rightarrow> Menu \<Rightarrow> StableNodeID \<Rightarrow> call list \<times> outcome" where
  "onExitNode attr d menu exitNode =
     (let command =
            (if exitNode = [] then
               [LogPrint ''disable exit node'' None, ClientSetUseExitNode False] @
               logIfError ''failed disabling exit node'' (SetUseExitNodeResult d)
             else
               [LogPrint (''enable exit node: '' @ exitNode) None,
                ClientEditPrefs (zeroPrefs\<lparr>ExitNodeID := exitNode, ExitNodeIDSet := True\<rparr>)] @
               logIfError ''failed setting exit node'' (EditPrefsResult d))
      in case rebuildFetched attr d menu of
           (calls, Inl e) \<Rightarrow> (command @ calls, Panicked e)
         | (calls, Inr menu1) \<Rightarrow> (command @ calls, Continue menu1))"

definition eventLoop_step :: "string \<Rightarrow> daemon \<Rightarrow> Menu \<Rightarrow> event \<Rightarrow> call list \<times> outcome" where
  "eventLoop_step attr d menu ev =
     (if \<not> selectable menu then ([], Panicked NilPointerDereference)
      else case ev of
        Cancelled \<Rightarrow> ([], Returned)
      | StateChange s \<Rightarrow> onState attr d menu s
      | ConnectClicked \<Rightarrow>
          ([ClientEditPrefs (zeroPrefs\<lparr>WantRunning := True, WantRunningSet := True\<rparr>)] @
           logIfError [] (EditPrefsResult d), Continue menu)
      | DisconnectClicked \<Rightarrow>
          ([ClientEditPrefs (zeroPrefs\<lparr>WantRunning := False, WantRunningSet := True\<rparr>)] @
           logIfError ''disconnecting'' (EditPrefsResult d), Continue menu)
      | SelfClicked \<Rightarrow>
          (case menu_status menu of
             None \<Rightarrow> ([], Panicked NilPointerDereference)
           | Some status \<Rightarrow> (copyTailscaleIP (Self status), Continue menu))
      | MoreClicked \<Rightarrow> ([OpenBrowser ''http://100.100.100.100/''], Continue menu)
      | AccountSelected i \<Rightarrow>
          ([ClientSwitchProfile i] @
           logIfError ''failed switching to profile ID'' (SwitchProfileResult d), Continue menu)
      | ExitNodeSelected exitNode \<Rightarrow> onExitNode attr d menu exitNode
      | QuitClicked \<Rightarrow> ([SystrayQuit], Continue menu))"

subsection \<open>watchIPNBus\<close>

text \<open>
  \<open>time.Second\<close>, in nanoseconds.
\<close>

definition Second :: int where
  "Second = 1000000000"

text \<open>
  \<open>errors.Is(err, context.Canceled)\<close>, which looks through the errors wrapped by \<open>%w\<close>.
\<close>

fun errorsIsCanceled :: "err \<Rightarrow> bool" where
  "errorsIsCanceled Canceled = True"
| "errorsIsCanceled (Failure msg) = False"
| "errorsIsCanceled (Wrapped msg e) = errorsIsCanceled e"

text \<open>
  What happens during one call of \<open>watchIPNBusInner\<close> is a parameter of the model: the
  answer to the subscription, and then what each turn of its loop meets: the context is
  done, \<open>watcher.Next\<close> fails, or \<open>watcher.Next\<close> delivers a notification whose state
  may be nil. A list of turns that ends without the first two stands for a call that has
  not returned, and the result is \<open>None\<close>; otherwise the result is the returned error, or
  nil.
\<close>

datatype poll = PollDone | NextError err | Notify "ipnState option"

record attempt =
  Subscribe :: "err option"
  Polls :: "poll list"

fun watch_loop :: "poll list \<Rightarrow> call list \<times> err option option" where
  "watch_loop [] = ([], None)"
| "watch_loop (PollDone # rest) = ([], Some None)"
| "watch_loop (NextError e # rest) = ([], Some (Some (Wrapped ''ipnbus error'' e)))"
| "watch_loop (Notify None # rest) = watch_loop rest"
| "watch_loop (Notify (Some s) # rest) =
     (case watch_loop rest of
        (calls, r) \<Rightarrow> (SendState s # LogPrint ''new state'' None # calls, r))"

definition watchIPNBusInner :: "attempt \<Rightarrow> call list \<times> err option option" where
  "watchIPNBusInner a =
     (case Subscribe a of
        Some e \<Rightarrow> ([ClientWatchIPNBus], Some (Some (Wrapped ''watching ipn bus'' e)))
      | None \<Rightarrow>
          (case watch_loop (Polls a) of
             (calls, None) \<Rightarrow> (ClientWatchIPNBus # calls, None)
           | (calls, Some r) \<Rightarrow> (ClientWatchIPNBus # calls @ [WatcherClose], Some r)))"

text \<open>
  \<open>watchIPNBus\<close> never returns. The model runs it against the list of the calls of
  \<open>watchIPNBusInner\<close> that the outside allows: it ends with \<open>Fatal\<close> when \<open>log.Fatalf\<close> has
  ended the process, with \<open>Blocked\<close> inside a call that has not returned, and with
  \<open>Reconnecting\<close> when the list is used up and the loop is about to call again.
\<close>

datatype watching = Fatal | Blocked | Reconnecting

fun watchIPNBus :: "attempt list \<Rightarrow> call list \<times> watching" where
  "watchIPNBus [] = ([], Reconnecting)"
| "watchIPNBus (a # rest) =
     (case watchIPNBusInner a of
        (calls, None) \<Rightarrow> (calls, Blocked)
      | (calls, Some None) \<Rightarrow>
          (case watchIPNBus rest of
             (calls', w) \<Rightarrow> (calls @ [Sleep (3 * Second)] @ calls', w))
      | (calls, Some (Some e)) \<Rightarrow>
          if errorsIsCanceled e
          then (calls @ [LogPrint [] (Some e), LogFatal ''watchIPNBus'' e], Fatal)
          else (case watchIPNBus rest of
                  (calls', w) \<Rightarrow>
                    (calls @ [LogPrint [] (Some e), Sleep (3 * Second)] @ calls', w)))"

subsection \<open>Notions used to state the properties of the grouping\<close>

text \<open>A peer belongs to a country, or to a (country, city) bucket, by its location codes.\<close>

definition inCountry :: "string \<Rightarrow> PeerStatus \<Rightarrow> bool" where
  "inCountry cc ps =
     (ExitNodeOption ps \<and> (case Location ps of None \<Rightarrow> False | Some l \<Rightarrow> CountryCode l = cc))"

definition inBucket :: "string \<Rightarrow> string \<Rightarrow> PeerStatus \<Rightarrow> bool" where
  "inBucket cc k ps =
     (ExitNodeOption ps \<and>
      (case Location ps of None \<Rightarrow> False | Some l \<Rightarrow> CountryCode l = cc \<and> CityCode l = k))"

definition priorityOf :: "PeerStatus \<Rightarrow> int" where
  "priorityOf ps = (case Location ps of None \<Rightarrow> 0 | Some l \<Rightarrow> Priority l)"

text \<open>The first peer of greatest priority in a list, starting from a current best.\<close>

fun pickBest :: "PeerStatus option \<Rightarrow> PeerStatus list \<Rightarrow> PeerStatus option" where
  "pickBest b [] = b"
| "pickBest b (p # ps) =
     pickBest (case b of None \<Rightarrow> Some p
               | Some b' \<Rightarrow> if priorityOf p > priorityOf b' then Some p else Some b') ps"

text \<open>The bucket of a country code and a city code, by two map lookups.\<close>

definition cityAt :: "mullvadPeers \<Rightarrow> string \<Rightarrow> string \<Rightarrow> mvCity option" where
  "cityAt mp cc k =
     (case map_of (countries mp) cc of
        None \<Rightarrow> None
      | Some c \<Rightarrow> map_of (country_cities c) k)"

definition peersAt :: "mullvadPeers \<Rightarrow> string \<Rightarrow> string \<Rightarrow> PeerStatus list" where
  "peersAt mp cc k = (case cityAt mp cc k of None \<Rightarrow> [] | Some c \<Rightarrow> city_peers c)"

text \<open>The loop invariant: what the maps hold after the peers \<open>E\<close> have been visited.\<close>

definition cityOK :: "PeerStatus list \<Rightarrow> string \<Rightarrow> string \<Rightarrow> mvCity option \<Rightarrow> bool" where
  "cityOK E cc k co =
     (case co of
        None \<Rightarrow> filter (inBucket cc k) E = []
      | Some city \<Rightarrow> city_peers city = filter (inBucket cc k) E \<and> city_peers city \<noteq> [] \<and>
                     city_best city = pickBest None (city_peers city))"

definition countryOK :: "PeerStatus list \<Rightarrow> string \<Rightarrow> mvCountry option \<Rightarrow> bool" where
  "countryOK E cc co =
     (case co of
        None \<Rightarrow> filter (inCountry cc) E = []
      | Some c \<Rightarrow> country_code c = cc \<and> filter (inCountry cc) E \<noteq> [] \<and>
                  country_best c = pickBest None (filter (inCountry cc) E) \<and>
                  distinct (map fst (country_cities c)) \<and>
                  (\<forall>k. cityOK E cc k (map_of (country_cities c) k)))"

definition grouped :: "PeerStatus list \<Rightarrow> (string \<times> mvCountry) list \<Rightarrow> bool" where
  "grouped E cs = (distinct (map fst cs) \<and> (\<forall>cc. countryOK E cc (map_of cs cc)))"

text \<open>The members of a country: the peers of all its cities.\<close>

definition countryMembers :: "mvCountry \<Rightarrow> PeerStatus set" where
  "countryMembers c = (\<Union>kc\<in>set (country_cities c). set (city_peers (snd kc)))"

text \<open>
  A best-peer field is right for a set of members when it is non-nil, references one of
  the members, and no member has a greater location priority.
\<close>

definition isBestOf :: "PeerStatus option \<Rightarrow> PeerStatus set \<Rightarrow> bool" where
  "isBestOf best members =
     (\<exists>b lb. best = Some b \<and> b \<in> members \<and> Location b = Some lb \<and>
        (\<forall>p\<in>members. \<exists>lp. Location p = Some lp \<and> Priority lp \<le> Priority lb))"

subsection \<open>Notions used to state the properties of the exit-node menu\<close>

text \<open>A check mark set under a condition.\<close>

definition checkIf :: "bool \<Rightarrow> MenuItem \<Rightarrow> MenuItem" where
  "checkIf b item = (if b then Check item else item)"

text \<open>The active exit node is one of the peers of a city, or of a country.\<close>

definition activeInCity :: "Status \<Rightarrow> mvCity \<Rightarrow> bool" where
  "activeInCity status city = (\<exists>ps\<in>set (city_peers city). isActive status (ID ps))"

definition activeInCountry :: "Status \<Rightarrow> mvCountry \<Rightarrow> bool" where
  "activeInCountry status country =
     (\<exists>kc\<in>set (country_cities country). activeInCity status (snd kc))"

text \<open>The entry that the menu shows for a city, and for a country, written as a value.\<close>

definition cityItem :: "Status \<Rightarrow> mvCity \<Rightarrow> MenuItem" where
  "cityItem status city =
     (case city_best city of
        None \<Rightarrow> Separator
      | Some b \<Rightarrow> checkIf (activeInCity status city)
                   (onClick (AddSubMenuItemCheckbox (city_name city) [] False) (ID b)))"

definition countryItem :: "Status \<Rightarrow> mvCountry \<Rightarrow> MenuItem" where
  "countryItem status country =
     (case country_best country of
        None \<Rightarrow> Separator
      | Some b \<Rightarrow>
          MenuItem (countryFlag (country_code country) @ '' '' @ country_name country) [] True
            (activeInCountry status country) False False
            (if length (country_cities country) = 1 then Some (SendExitNode (ID b)) else None)
            (if length (country_cities country) = 1 then []
             else onClick (AddSubMenuItemCheckbox ''Best Available'' [] False) (ID b) #
                  Separator # map (cityItem status) (sortedCities country)))"

text \<open>The best-peer fields of a country and of its cities are non-nil.\<close>

definition wellFormed :: "mvCountry \<Rightarrow> bool" where
  "wellFormed c =
     (country_best c \<noteq> None \<and> (\<forall>kc\<in>set (country_cities c). city_best (snd kc) \<noteq> None))"

text \<open>What claim C4 says of the entry of a country.\<close>

definition hasBestAvailable :: "MenuItem \<Rightarrow> bool" where
  "hasBestAvailable item = (\<exists>x\<in>set (children item). title x = ''Best Available'')"

definition rendersCountry :: "mvCountry \<Rightarrow> MenuItem \<Rightarrow> bool" where
  "rendersCountry c item =
     ((hasBestAvailable item \<longleftrightarrow> length (country_cities c) > 1) \<and>
      (length (country_cities c) = 1 \<longrightarrow>
         children item = [] \<and>
         (\<exists>kc b. country_cities c = [kc] \<and> city_best (snd kc) = Some b \<and>
                 listener item = Some (SendExitNode (ID b)))) \<and>
      (length (country_cities c) > 1 \<longrightarrow>
         listener item = None \<and>
         (\<exists>b rest. country_best c = Some b \<and> length rest = length (country_cities c) \<and>
            children item =
              onClick (AddSubMenuItemCheckbox ''Best Available'' [] False) (ID b) #
              Separator # rest)))"

text \<open>What claim C9 says of the entry of a tailnet exit node.\<close>

definition rendersPeer :: "Status \<Rightarrow> PeerStatus \<Rightarrow> MenuItem \<Rightarrow> bool" where
  "rendersPeer status ps item =
     ((disabled item \<longleftrightarrow> \<not> Online ps) \<and>
      (checked item \<longleftrightarrow>
         (\<exists>es. ExitNodeStatus status = Some es \<and> ID ps = ExitNode_ID es)) \<and>
      title item = firstLabel (DNSName ps) @ (if Online ps then [] else '' (offline)'') \<and>
      listener item = Some (SendExitNode (ID ps)) \<and> children item = [])"

text \<open>The exit nodes of the tailnet: eligible peers without location, in status order.\<close>

definition tailnetPeers :: "Status \<Rightarrow> PeerStatus list" where
  "tailnetPeers status = filter (\<lambda>ps. ExitNodeOption ps \<and> Location ps = None) (Peer status)"

text \<open>
  Neither an entry nor any entry below it carries a check mark.
\<close>

fun nothingChecked :: "MenuItem \<Rightarrow> bool" where
  "nothingChecked (MenuItem t tip cb c d h l ch) = (\<not> c \<and> (\<forall>x\<in>set ch. nothingChecked x))"
| "nothingChecked Separator = True"

text \<open>
  Below an entry, the check marks form one path down to a leaf: a checked entry with
  sub-entries has exactly one checked sub-entry, and nothing is checked below an unchecked
  entry.
\<close>

fun checkedPath :: "MenuItem \<Rightarrow> bool" where
  "checkedPath (MenuItem t tip cb c d h l ch) =
     (if c then (ch = [] \<or> length (filter checked ch) = 1) \<and> (\<forall>x\<in>set ch. checkedPath x)
      else (\<forall>x\<in>set ch. nothingChecked x))"
| "checkedPath Separator = True"

text \<open>
  No two sub-entries of the same entry are both checked, at any depth.
\<close>

fun siblingsExclusive :: "MenuItem \<Rightarrow> bool" where
  "siblingsExclusive (MenuItem t tip cb c d h l ch) =
     (length (filter checked ch) \<le> 1 \<and> (\<forall>x\<in>set ch. siblingsExclusive x))"
| "siblingsExclusive Separator = True"

text \<open>
  The active exit node is a peer that the menu lists: an eligible peer without location,
  or an eligible located peer when the own node has the mullvad capability.
\<close>

definition listedActive :: "Status \<Rightarrow> PeerStatus \<Rightarrow> bool" where
  "listedActive status self =
     (\<exists>p\<in>set (Peer status). isActive status (ID p) \<and> ExitNodeOption p \<and>
        (Location p = None \<or> ''mullvad'' \<in> set (CapMap self)))"

text \<open>
  The active exit node is an eligible located peer.
\<close>

definition locatedActive :: "Status \<Rightarrow> bool" where
  "locatedActive status =
     (\<exists>p\<in>set (Peer status). isActive status (ID p) \<and> ExitNodeOption p \<and> Location p \<noteq> None)"

text \<open>
  The check marks of a city entry and of a country entry: checked iff the active exit node
  is one of its peers; a country with several cities has the unchecked entry
  "Best Available", a separator and one entry per city.
\<close>

definition marksCity :: "Status \<Rightarrow> mvCity \<Rightarrow> MenuItem \<Rightarrow> bool" where
  "marksCity status city item =
     ((checked item \<longleftrightarrow> activeInCity status city) \<and> children item = [])"

definition marksCountry :: "Status \<Rightarrow> mvCountry \<Rightarrow> MenuItem \<Rightarrow> bool" where
  "marksCountry status c item =
     ((checked item \<longleftrightarrow> activeInCountry status c) \<and>
      (if length (country_cities c) = 1 then children item = []
       else \<exists>bm rest. children item = bm # Separator # rest \<and> \<not> checked bm \<and>
              children bm = [] \<and> list_all2 (marksCity status) (sortedCities c) rest))"

subsection \<open>Notions used to state the properties of the event loop and the watcher\<close>

text \<open>
  The requests that tell the daemon to change something, as opposed to those that read.
\<close>

fun isCommand :: "call \<Rightarrow> bool" where
  "isCommand (ClientEditPrefs mp) = True"
| "isCommand (ClientSetUseExitNode b) = True"
| "isCommand (ClientSwitchProfile i) = True"
| "isCommand c = False"

text \<open>
  A call of \<open>watchIPNBusInner\<close> after which the watcher goes round again: it has returned,
  and not with an error that stems from cancellation.
\<close>

definition reconnects :: "attempt \<Rightarrow> bool" where
  "reconnects a =
     (case snd (watchIPNBusInner a) of
        None \<Rightarrow> False
      | Some None \<Rightarrow> True
      | Some (Some e) \<Rightarrow> \<not> errorsIsCanceled e)"

subsection \<open>A concrete status\<close>

text \<open>
  Three location-tagged exit nodes (Berlin and Frankfurt in Germany, Gothenburg in Sweden),
  an offline exit node of the tailnet without location, and a peer that is no exit node.
\<close>

definition mkPeer :: "string \<Rightarrow> bool \<Rightarrow> bool \<Rightarrow> Location option \<Rightarrow> PeerStatus" where
  "mkPeer i online exitOption loc =
     \<lparr>ID = i, HostName = i, DNSName = i @ ''.example.ts.net.'', TailscaleIPs = [''100.64.0.1''],
      Online = online, ExitNodeOption = exitOption, Location = loc, CapMap = []\<rparr>"

definition berlin :: Location where
  "berlin = \<lparr>Country = ''Germany'', CountryCode = ''DE'', City = ''Berlin'', CityCode = ''ber'',
             Priority = 10\<rparr>"

definition frankfurt :: Location where
  "frankfurt = \<lparr>Country = ''Germany'', CountryCode = ''DE'', City = ''Frankfurt'',
                CityCode = ''fra'', Priority = 20\<rparr>"

definition gothenburg :: Location where
  "gothenburg = \<lparr>Country = ''Sweden'', CountryCode = ''SE'', City = ''Gothenburg'',
                 CityCode = ''got'', Priority = 5\<rparr>"

definition peerBerlin :: PeerStatus where
  "peerBerlin = mkPeer ''nBER'' True True (Some berlin)"

definition peerFrankfurt :: PeerStatus where
  "peerFrankfurt = mkPeer ''nFRA'' True True (Some frankfurt)"

definition peerGothenburg :: PeerStatus where
  "peerGothenburg = mkPeer ''nGOT'' True True (Some gothenburg)"

definition peerHome :: PeerStatus where
  "peerHome = mkPeer ''nHOME'' False True None"

definition peerLaptop :: PeerStatus where
  "peerLaptop = mkPeer ''nLAP'' True False None"

definition exampleSelf :: PeerStatus where
  "exampleSelf =
     (mkPeer ''nSELF'' True False None)\<lparr>CapMap := [''mullvad'', ''suggest-exit-node-ui'']\<rparr>"

definition exampleStatus :: Status where
  "exampleStatus =
     \<lparr>Self = Some exampleSelf, ExitNodeStatus = Some \<lparr>ExitNode_ID = ''nFRA''\<rparr>,
      Peer = [peerBerlin, peerHome, peerFrankfurt, peerLaptop, peerGothenburg]\<rparr>"

definition exampleGermany :: mvCountry where
  "exampleGermany =
     \<lparr>country_code = ''DE'', country_name = ''Germany'', country_best = Some peerFrankfurt,
      country_cities =
        [(''ber'', \<lparr>city_name = ''Berlin'', city_best = Some peerBerlin,
                    city_peers = [peerBerlin]\<rparr>),
         (''fra'', \<lparr>city_name = ''Frankfurt'', city_best = Some peerFrankfurt,
                    city_peers = [peerFrankfurt]\<rparr>)]\<rparr>"

definition exampleSweden :: mvCountry where
  "exampleSweden =
     \<lparr>country_code = ''SE'', country_name = ''Sweden'', country_best = Some peerGothenburg,
      country_cities =
        [(''got'', \<lparr>city_name = ''Gothenburg'', city_best = Some peerGothenburg,
                    city_peers = [peerGothenburg]\<rparr>)]\<rparr>"

definition exampleTaxonomy :: mullvadPeers where
  "exampleTaxonomy = \<lparr>countries = [(''DE'', exampleGermany), (''SE'', exampleSweden)]\<rparr>"

text \<open>A suggestion of the daemon: the Frankfurt peer.\<close>

definition exampleSuggestion :: "Suggestion \<times> err option" where
  "exampleSuggestion =
     (\<lparr>Sugg_ID = ''nFRA'', Sugg_Name = ''nFRA.example.ts.net.'', Sugg_Location = Some frankfurt\<rparr>,
      None)"

text \<open>The name of the capability that enables the Recommended entry.\<close>

definition exampleAttr :: string where
  "exampleAttr = ''suggest-exit-node-ui''"

text \<open>The menu of the concrete status, with the suggestion of the Frankfurt peer.\<close>

definition exampleOthers :: "MenuItem list" where
  "exampleOthers =
     [Separator,
      MenuItem ''Tailnet Exit Nodes'' [] False False True False None [],
      MenuItem ''nHOME (offline)'' [] True False True False (Some (SendExitNode ''nHOME'')) [],
      Separator,
      MenuItem ''Location-based Exit Nodes'' [] False False True False None [],
      MenuItem ''Mullvad VPN'' [] True True False False None
        [MenuItem (countryFlag ''DE'' @ '' Germany'') [] True True False False None
           [MenuItem ''Best Available'' [] True False False False
              (Some (SendExitNode ''nFRA'')) [],
            Separator,
            MenuItem ''Berlin'' [] True False False False (Some (SendExitNode ''nBER'')) [],
            MenuItem ''Frankfurt'' [] True True False False (Some (SendExitNode ''nFRA'')) []],
         MenuItem (countryFlag ''SE'' @ '' Sweden'') [] True False False False
           (Some (SendExitNode ''nGOT'')) []]]"

definition exampleMenu :: MenuItem where
  "exampleMenu =
     MenuItem ''Exit Nodes'' [] False False False False None
       ([MenuItem ''None'' [] True False False False (Some (SendExitNode [])) [],
         Separator,
         MenuItem (''Recommended: '' @ countryFlag ''DE'' @ '' Germany: Frankfurt'') [] True True
           False False (Some (SendExitNode ''nFRA'')) []] @ exampleOthers)"

text \<open>The concrete status without an active exit node.\<close>

definition exampleIdle :: Status where
  "exampleIdle = exampleStatus\<lparr>ExitNodeStatus := None\<rparr>"

text \<open>
  The concrete status when the active exit node is the laptop, a peer that is no exit-node
  option, and the menu built for it.
\<close>

definition exampleUnlisted :: Status where
  "exampleUnlisted = exampleStatus\<lparr>ExitNodeStatus := Some \<lparr>ExitNode_ID = ''nLAP''\<rparr>\<rparr>"

definition exampleUnlistedMenu :: MenuItem where
  "exampleUnlistedMenu =
     MenuItem ''Exit Nodes'' [] False False False False None
       [MenuItem ''None'' [] True False False False (Some (SendExitNode [])) [],
        Separator,
        MenuItem (''Recommended: '' @ countryFlag ''DE'' @ '' Germany: Frankfurt'') [] True False
          False False (Some (SendExitNode ''nFRA'')) [],
        Separator,
        MenuItem ''Tailnet Exit Nodes'' [] False False True False None [],
        MenuItem ''nHOME (offline)'' [] True False True False (Some (SendExitNode ''nHOME'')) [],
        Separator,
        MenuItem ''Location-based Exit Nodes'' [] False False True False None [],
        MenuItem ''Mullvad VPN'' [] True False False False None
          [MenuItem (countryFlag ''DE'' @ '' Germany'') [] True False False False None
             [MenuItem ''Best Available'' [] True False False False
                (Some (SendExitNode ''nFRA'')) [],
              Separator,
              MenuItem ''Berlin'' [] True False False False (Some (SendExitNode ''nBER'')) [],
              MenuItem ''Frankfurt'' [] True False False False
                (Some (SendExitNode ''nFRA'')) []],
           MenuItem (countryFlag ''SE'' @ '' Sweden'') [] True False False False
             (Some (SendExitNode ''nGOT'')) []]]"

text \<open>
  Concrete answers of the daemon, with a failing \<open>EditPrefs\<close>, and a tray menu as a
  rebuild leaves it.
\<close>

definition exampleProfile :: LoginProfile where
  "exampleProfile = \<lparr>Profile_ID = ''p1'', Profile_Name = ''user@example.com'',
                      Profile_DomainName = ''example.com'', Profile_PicURL = []\<rparr>"

definition exampleDaemon :: daemon where
  "exampleDaemon =
     \<lparr>StatusResult = (Some exampleStatus, None),
      ProfileStatusResult = (exampleProfile, [exampleProfile], None),
      SuggestExitNodeResult = exampleSuggestion,
      EditPrefsResult = Some (Failure ''denied''),
      SetUseExitNodeResult = None,
      SwitchProfileResult = None\<rparr>"

definition exampleTray :: Menu where
  "exampleTray =
     newMenu\<lparr>menu_status := Some exampleStatus,
             menu_connect := Some (AddMenuItem ''Connect'' []),
             menu_disconnect := Some (Hide (AddMenuItem ''Disconnect'' [])),
             menu_self := Some (AddMenuItem ''This Device: nSELF (100.64.0.1)'' []),
             menu_more := Some (Enable (AddMenuItem ''More settings'' [])),
             menu_quit := Some (Enable (AddMenuItem ''Quit'' ''Quit the app'')),
             menu_eventCancel := True\<rparr>"

text \<open>
  Three calls of \<open>watchIPNBusInner\<close>: the subscription is refused; the stream breaks after
  a notification with a state and one without; the subscription fails because the context
  was cancelled.
\<close>

definition exampleRefused :: attempt where
  "exampleRefused = \<lparr>Subscribe = Some (Failure ''connection refused''), Polls = []\<rparr>"

definition exampleDropped :: attempt where
  "exampleDropped = \<lparr>Subscribe = None,
              Polls = [Notify (Some Running), Notify None, NextError (Failure ''EOF'')]\<rparr>"

definition exampleCancelled :: attempt where
  "exampleCancelled = \<lparr>Subscribe = Some Canceled, Polls = []\<rparr>"

section \<open>Properties\<close>



subsection \<open>countryFlag\<close>

lemma or32: "(n :: nat) OR 32 = n + of_bool (\<not> bit n 5) * 32"
  using set_bit_eq [of 5 n] by (simp add: set_bit_eq_or)

lemma bit5: "bit (n :: nat) 5 = odd (n div 32)"
  by (simp add: bit_iff_odd)

lemma div32_upper: "65 \<le> (n :: nat) \<Longrightarrow> n \<le> 90 \<Longrightarrow> n div 32 = 2"
  by simp

lemma div32_lower: "97 \<le> (n :: nat) \<Longrightarrow> n \<le> 122 \<Longrightarrow> n div 32 = 3"
  by simp

lemma or32_upper: "65 \<le> (n :: nat) \<Longrightarrow> n \<le> 90 \<Longrightarrow> n OR 32 = n + 32"
  unfolding or32 bit5 by (simp add: div32_upper)

lemma or32_lower: "97 \<le> (n :: nat) \<Longrightarrow> n \<le> 122 \<Longrightarrow> n OR 32 = n"
  unfolding or32 bit5 by (simp add: div32_lower)

lemma or32_range:
  "(97 \<le> (n :: nat) OR 32 \<and> n OR 32 \<le> 122) =
   ((65 \<le> n \<and> n \<le> 90) \<or> (97 \<le> n \<and> n \<le> 122))"
proof (cases "odd (n div 32)")
  case True
  then have e: "n OR 32 = n" unfolding or32 bit5 by simp
  have "\<not> (65 \<le> n \<and> n \<le> 90)" using True div32_upper [of n] by auto
  then show ?thesis unfolding e by auto
next
  case False
  then have e: "n OR 32 = n + 32" unfolding or32 bit5 by simp
  have "\<not> (97 \<le> n \<and> n \<le> 122)" using False div32_lower [of n] by auto
  then show ?thesis unfolding e by auto
qed

lemma or32_letter:
  "(97 \<le> (of_char c :: nat) OR 32 \<and> (of_char c :: nat) OR 32 \<le> 122) = isASCIILetter c"
  unfolding isASCIILetter_def by (rule or32_range)

lemma or32_toLower:
  "isASCIILetter c \<Longrightarrow> (of_char c :: nat) OR 32 = of_char (toLowerASCII c)"
  unfolding isASCIILetter_def toLowerASCII_def
  by (auto simp: or32_upper or32_lower)

lemma regional_mod64: "k \<le> 25 \<Longrightarrow> (0x1F1E6 + k) mod 64 = 38 + (k :: nat)"
proof -
  assume k: "k \<le> 25"
  have "0x1F1E6 + k = (38 + k) + 1991 * 64" by simp
  then have "(0x1F1E6 + k) mod 64 = (38 + k) mod 64"
    by (simp only: mod_mult_self1)
  then show ?thesis using k by simp
qed

lemma encodeRune_regional:
  assumes k: "k \<le> 25"
  shows "encodeRune (0x1F1E6 + int k) =
     [char_of (0xF0 :: nat), char_of (0x9F :: nat), char_of (0x87 :: nat), char_of (0xA6 + k)]"
proof -
  have n: "nat (0x1F1E6 + int k) = 0x1F1E6 + k" by simp
  have d1: "(0x1F1E6 + k) div 262144 = 0" using k by simp
  have d2: "(0x1F1E6 + k) div 4096 = 31" using k by simp
  have d3: "(0x1F1E6 + k) div 64 = 1991" using k by simp
  show ?thesis using k
    unfolding encodeRune_def Let_def n d1 d2 d3 regional_mod64 [OF k]
    by simp
qed

lemma countryFlag_loop_done: "countryFlag_loop code 2 runes = runesToString runes"
  by simp

lemma countryFlag_loop_step:
  "i < 2 \<Longrightarrow> countryFlag_loop code i runes =
     (if isASCIILetter (code ! i)
      then countryFlag_loop code (i + 1)
             (runes @ [0x1F1E6 + int ((of_char (toLowerASCII (code ! i)) :: nat) - 97)])
      else [])"
  using or32_letter [of "code ! i"] or32_toLower [of "code ! i"]
  by (subst countryFlag_loop.simps) (auto simp: Let_def simp del: countryFlag_loop.simps)

lemma toLowerASCII_offset:
  "isASCIILetter c \<Longrightarrow> (of_char (toLowerASCII c) :: nat) - 97 \<le> 25"
  using or32_letter [of c] or32_toLower [of c] by auto

lemma countryFlag_char:
  "countryFlag s =
     (if length s = 2 \<and> isASCIILetter (s ! 0) \<and> isASCIILetter (s ! 1)
      then regionalIndicator (s ! 0) @ regionalIndicator (s ! 1) else [])"
proof -
  have two: "Suc (Suc 0) = 2" by simp
  show ?thesis
    unfolding countryFlag_def
    by (simp add: countryFlag_loop_step countryFlag_loop_done two runesToString_def
        encodeRune_regional toLowerASCII_offset regionalIndicator_def
        del: countryFlag_loop.simps)
qed

lemma isASCIILetter_toLower: "isASCIILetter (toLowerASCII c) = isASCIILetter c"
  unfolding isASCIILetter_def toLowerASCII_def by auto

lemma toLowerASCII_idem: "toLowerASCII (toLowerASCII c) = toLowerASCII c"
  unfolding toLowerASCII_def by auto

lemma regionalIndicator_toLower: "regionalIndicator (toLowerASCII c) = regionalIndicator c"
  by (simp add: regionalIndicator_def toLowerASCII_idem)

text \<open>
  Claim C10. \<open>countryFlag\<close> is a total function of its argument. Its result is the empty
  string unless the argument has exactly two bytes, each of them an ASCII letter of either
  case; then the result is the UTF-8 text of the two regional-indicator symbols of the
  lowercased letters, eight bytes. Hence the flag of a string is the flag of the string
  with its ASCII letters lowercased.
\<close>

theorem countryFlag_case_insensitive:
  "countryFlag s =
     (if length s = 2 \<and> isASCIILetter (s ! 0) \<and> isASCIILetter (s ! 1)
      then regionalIndicator (s ! 0) @ regionalIndicator (s ! 1) else [])
   \<and> countryFlag (map toLowerASCII s) = countryFlag s"
proof -
  have "countryFlag (map toLowerASCII s) = countryFlag s"
    unfolding countryFlag_char [of s] countryFlag_char [of "map toLowerASCII s"]
    by (auto simp: isASCIILetter_toLower regionalIndicator_toLower)
  then show ?thesis using countryFlag_char [of s] by simp
qed

subsection \<open>The grouping of newMullvadPeers\<close>

lemma pickBest_snoc:
  "pickBest b (xs @ [p]) =
     (case pickBest b xs of None \<Rightarrow> Some p
      | Some b' \<Rightarrow> if priorityOf p > priorityOf b' then Some p else Some b')"
  by (induction xs arbitrary: b) auto

lemma pickBest_Some_acc: "\<exists>r. pickBest (Some b) xs = Some r"
  by (induction xs arbitrary: b) auto

lemma pickBest_nonempty: "xs \<noteq> [] \<Longrightarrow> \<exists>r. pickBest None xs = Some r"
  by (cases xs) (auto simp: pickBest_Some_acc)

lemma pickBest_mem_acc: "pickBest (Some b) xs = Some r \<Longrightarrow> r = b \<or> r \<in> set xs"
  by (induction xs arbitrary: b) (auto split: if_splits)

lemma pickBest_mem: "pickBest None xs = Some r \<Longrightarrow> r \<in> set xs"
  by (cases xs) (auto dest: pickBest_mem_acc)

lemma pickBest_max_acc:
  "pickBest (Some b) xs = Some r \<Longrightarrow>
     priorityOf b \<le> priorityOf r \<and> (\<forall>x\<in>set xs. priorityOf x \<le> priorityOf r)"
proof (induction xs arbitrary: b)
  case Nil
  then show ?case by simp
next
  case (Cons a xs)
  then show ?case by (fastforce split: if_splits)
qed

lemma pickBest_max: "pickBest None xs = Some r \<Longrightarrow> x \<in> set xs \<Longrightarrow> priorityOf x \<le> priorityOf r"
  by (cases xs) (auto dest: pickBest_max_acc)

lemma higherPriority_pickBest:
  assumes "\<forall>x\<in>set xs. Location x \<noteq> None" and "Location p = Some loc"
  shows "\<exists>w. higherPriority loc (pickBest None xs) = Inr w \<and>
             (if w then Some p else pickBest None xs) = pickBest None (xs @ [p])"
proof (cases "pickBest None xs")
  case None
  then show ?thesis by (auto simp: higherPriority_def pickBest_snoc)
next
  case (Some b)
  then have "b \<in> set xs" by (rule pickBest_mem)
  with assms obtain bl where "Location b = Some bl" by auto
  with Some assms show ?thesis
    by (simp add: higherPriority_def pickBest_snoc priorityOf_def)
qed

lemma filter_inCountry_snoc:
  "Location p = Some loc \<Longrightarrow> ExitNodeOption p \<Longrightarrow>
   filter (inCountry cc) (E @ [p]) =
     filter (inCountry cc) E @ (if cc = CountryCode loc then [p] else [])"
  by (auto simp: inCountry_def)

lemma filter_inBucket_snoc:
  "Location p = Some loc \<Longrightarrow> ExitNodeOption p \<Longrightarrow>
   filter (inBucket cc k) (E @ [p]) =
     filter (inBucket cc k) E @ (if cc = CountryCode loc \<and> k = CityCode loc then [p] else [])"
  by (auto simp: inBucket_def)

lemma inBucket_located: "x \<in> set (filter (inBucket cc k) E) \<Longrightarrow> Location x \<noteq> None"
  by (auto simp: inBucket_def split: option.splits)

lemma inCountry_located: "x \<in> set (filter (inCountry cc) E) \<Longrightarrow> Location x \<noteq> None"
  by (auto simp: inCountry_def split: option.splits)

lemma inBucket_inCountry: "inBucket cc k x \<Longrightarrow> inCountry cc x"
  by (auto simp: inBucket_def inCountry_def split: option.splits)

lemma filter_inCountry_empty:
  "filter (inCountry cc) E = [] \<Longrightarrow> filter (inBucket cc k) E = []"
  by (auto simp: filter_empty_conv dest: inBucket_inCountry)

lemma filter_other:
  "Location p = Some loc \<Longrightarrow> ExitNodeOption p \<Longrightarrow> cc \<noteq> CountryCode loc \<Longrightarrow>
   filter (inCountry cc) (E @ [p]) = filter (inCountry cc) E \<and>
   filter (inBucket cc k) (E @ [p]) = filter (inBucket cc k) E"
  by (auto simp: inCountry_def inBucket_def)

lemma countryOK_other:
  assumes "Location p = Some loc" "ExitNodeOption p" "cc \<noteq> CountryCode loc"
  shows "countryOK (E @ [p]) cc co = countryOK E cc co"
proof -
  have f1: "filter (inCountry cc) (E @ [p]) = filter (inCountry cc) E"
    using filter_other [OF assms] by simp
  have f2: "\<And>k. filter (inBucket cc k) (E @ [p]) = filter (inBucket cc k) E"
    using filter_other [OF assms] by simp
  show ?thesis unfolding countryOK_def cityOK_def f1 f2 ..
qed

lemma filter_skip:
  "\<not> ExitNodeOption p \<or> Location p = None \<Longrightarrow>
   filter (inCountry cc) (E @ [p]) = filter (inCountry cc) E \<and>
   filter (inBucket cc k) (E @ [p]) = filter (inBucket cc k) E"
  by (auto simp: inCountry_def inBucket_def)

lemma countryOK_skip:
  assumes "\<not> ExitNodeOption p \<or> Location p = None"
  shows "countryOK (E @ [p]) cc co = countryOK E cc co"
proof -
  have f1: "filter (inCountry cc) (E @ [p]) = filter (inCountry cc) E"
    using filter_skip [OF assms] by simp
  have f2: "\<And>k. filter (inBucket cc k) (E @ [p]) = filter (inBucket cc k) E"
    using filter_skip [OF assms] by simp
  show ?thesis unfolding countryOK_def cityOK_def f1 f2 ..
qed

lemma grouped_skip:
  "\<not> ExitNodeOption p \<or> Location p = None \<Longrightarrow> grouped (E @ [p]) cs = grouped E cs"
  by (simp add: grouped_def countryOK_skip)


lemma cityOK_other:
  assumes "Location p = Some loc" "ExitNodeOption p" "k \<noteq> CityCode loc"
  shows "cityOK (E @ [p]) cc k co = cityOK E cc k co"
proof -
  have f: "filter (inBucket cc k) (E @ [p]) = filter (inBucket cc k) E"
    using assms by (auto simp: inBucket_def)
  show ?thesis unfolding cityOK_def f ..
qed

lemma city_step:
  assumes ok: "cityOK E (CountryCode loc) (CityCode loc) co"
    and loc: "Location p = Some loc" and ex: "ExitNodeOption p"
    and city: "city = (case co of Some c \<Rightarrow> c
                       | None \<Rightarrow> \<lparr>city_name = City loc, city_best = None, city_peers = []\<rparr>)"
    and city1: "city1 = city\<lparr>city_peers := city_peers city @ [p]\<rparr>"
  shows "\<exists>w. higherPriority loc (city_best city1) = Inr w \<and>
             cityOK (E @ [p]) (CountryCode loc) (CityCode loc)
               (Some (if w then city1\<lparr>city_best := Some p\<rparr> else city1))"
proof -
  let ?F = "filter (inBucket (CountryCode loc) (CityCode loc)) E"
  have peers: "city_peers city = ?F"
    using ok city by (cases co) (auto simp: cityOK_def)
  have best: "city_best city = pickBest None ?F"
    using ok city by (cases co) (auto simp: cityOK_def)
  have "\<forall>x\<in>set ?F. Location x \<noteq> None"
    using inBucket_located by blast
  from higherPriority_pickBest [OF this loc]
  obtain w where w: "higherPriority loc (pickBest None ?F) = Inr w"
    and w': "(if w then Some p else pickBest None ?F) = pickBest None (?F @ [p])"
    by blast
  have fs: "filter (inBucket (CountryCode loc) (CityCode loc)) (E @ [p]) = ?F @ [p]"
    using loc ex by (simp add: inBucket_def)
  have "higherPriority loc (city_best city1) = Inr w"
    using w best city1 by simp
  moreover have "cityOK (E @ [p]) (CountryCode loc) (CityCode loc)
               (Some (if w then city1\<lparr>city_best := Some p\<rparr> else city1))"
    unfolding cityOK_def fs using w' peers best city1
    by (cases w) simp_all
  ultimately show ?thesis by blast
qed


lemma body_step:
  assumes g: "grouped E cs" and loc: "Location p = Some loc" and ex: "ExitNodeOption p"
  shows "\<exists>c'. newMullvadPeers_body p cs = Inr (AList.update (CountryCode loc) c' cs) \<and>
              countryOK (E @ [p]) (CountryCode loc) (Some c')"
proof -
  let ?cc = "CountryCode loc" and ?k = "CityCode loc"
  let ?G = "filter (inCountry ?cc) E"
  define country where "country = (case map_of cs ?cc of
                            Some c \<Rightarrow> c
                          | None \<Rightarrow> \<lparr>country_code = ?cc, country_name = Country loc,
                                      country_best = None, country_cities = []\<rparr>)"
  define city where "city = (case map_of (country_cities country) ?k of
                         Some c \<Rightarrow> c
                       | None \<Rightarrow> \<lparr>city_name = City loc, city_best = None, city_peers = []\<rparr>)"
  define city1 where "city1 = city\<lparr>city_peers := city_peers city @ [p]\<rparr>"
  have cok: "countryOK E ?cc (map_of cs ?cc)" using g by (simp add: grouped_def)
  have code: "country_code country = ?cc"
    using cok by (cases "map_of cs ?cc") (auto simp: country_def countryOK_def)
  have best: "country_best country = pickBest None ?G"
    using cok by (cases "map_of cs ?cc") (auto simp: country_def countryOK_def)
  have dist: "distinct (map fst (country_cities country))"
    using cok by (cases "map_of cs ?cc") (auto simp: country_def countryOK_def)
  have cities: "\<And>k. cityOK E ?cc k (map_of (country_cities country) k)"
    using cok by (cases "map_of cs ?cc")
      (auto simp: country_def countryOK_def cityOK_def filter_inCountry_empty)
  from city_step [OF cities [of ?k] loc ex city_def city1_def]
  obtain w where w: "higherPriority loc (city_best city1) = Inr w"
    and cw: "cityOK (E @ [p]) ?cc ?k (Some (if w then city1\<lparr>city_best := Some p\<rparr> else city1))"
    by blast
  define city2 where "city2 = (if w then city1\<lparr>city_best := Some p\<rparr> else city1)"
  have "\<forall>x\<in>set ?G. Location x \<noteq> None" using inCountry_located by blast
  from higherPriority_pickBest [OF this loc]
  obtain v where v: "higherPriority loc (pickBest None ?G) = Inr v"
    and v': "(if v then Some p else pickBest None ?G) = pickBest None (?G @ [p])"
    by blast
  define country1 where "country1 = (if v then country\<lparr>country_best := Some p\<rparr> else country)"
  define country2 where "country2 = country1\<lparr>country_cities :=
                                 AList.update ?k city2 (country_cities country1)\<rparr>"
  have body: "newMullvadPeers_body p cs = Inr (AList.update ?cc country2 cs)"
    unfolding newMullvadPeers_body_def Let_def
    using loc w v best
    by (simp add: country_def [symmetric] city_def [symmetric] city1_def [symmetric]
          city2_def country1_def country2_def)
  have fs: "filter (inCountry ?cc) (E @ [p]) = ?G @ [p]"
    using loc ex by (simp add: inCountry_def)
  have c1: "country_cities country1 = country_cities country" "country_code country1 = ?cc"
    "country_best country1 = pickBest None (?G @ [p])"
    using v' best code by (auto simp: country1_def)
  have cs2: "\<And>k. cityOK (E @ [p]) ?cc k (map_of (country_cities country2) k)"
  proof -
    fix k
    show "cityOK (E @ [p]) ?cc k (map_of (country_cities country2) k)"
    proof (cases "k = ?k")
      case True
      then show ?thesis using cw by (simp add: country2_def c1 update_conv' city2_def)
    next
      case False
      then show ?thesis
        using cities [of k] cityOK_other [OF loc ex False]
        by (simp add: country2_def c1 update_conv')
    qed
  qed
  have "countryOK (E @ [p]) ?cc (Some country2)"
    unfolding countryOK_def fs using cs2 dist
    by (simp add: country2_def c1 distinct_update)
  with body show ?thesis by blast
qed

lemma grouped_step:
  assumes g: "grouped E cs" and loc: "Location p = Some loc" and ex: "ExitNodeOption p"
  shows "\<exists>cs'. newMullvadPeers_body p cs = Inr cs' \<and> grouped (E @ [p]) cs'"
proof -
  from body_step [OF assms] obtain c' where
    b: "newMullvadPeers_body p cs = Inr (AList.update (CountryCode loc) c' cs)"
    and c: "countryOK (E @ [p]) (CountryCode loc) (Some c')" by blast
  have "grouped (E @ [p]) (AList.update (CountryCode loc) c' cs)"
    unfolding grouped_def
  proof (intro conjI allI)
    show "distinct (map fst (AList.update (CountryCode loc) c' cs))"
      using g by (simp add: grouped_def distinct_update)
  next
    fix cc
    show "countryOK (E @ [p]) cc (map_of (AList.update (CountryCode loc) c' cs) cc)"
    proof (cases "cc = CountryCode loc")
      case True
      then show ?thesis using c by (simp add: update_conv')
    next
      case False
      then show ?thesis
        using g countryOK_other [OF loc ex False] by (simp add: update_conv' grouped_def)
    qed
  qed
  with b show ?thesis by blast
qed

lemma newMullvadPeers_loop_grouped:
  "grouped E cs \<Longrightarrow> \<exists>cs'. newMullvadPeers_loop ps cs = Inr cs' \<and> grouped (E @ ps) cs'"
proof (induction ps arbitrary: E cs)
  case Nil
  then show ?case by simp
next
  case (Cons p ps)
  show ?case
  proof (cases "\<not> ExitNodeOption p \<or> Location p = None")
    case True
    then have "grouped (E @ [p]) cs" using Cons.prems by (simp add: grouped_skip)
    from Cons.IH [OF this] show ?thesis using True by auto
  next
    case False
    then obtain loc where loc: "Location p = Some loc" and ex: "ExitNodeOption p" by auto
    from grouped_step [OF Cons.prems loc ex] obtain cs1 where
      b: "newMullvadPeers_body p cs = Inr cs1" and g1: "grouped (E @ [p]) cs1" by blast
    from Cons.IH [OF g1] show ?thesis using False b by auto
  qed
qed

lemma grouped_empty: "grouped [] []"
  by (simp add: grouped_def countryOK_def)

lemma newMullvadPeers_grouped:
  "\<exists>mp. newMullvadPeers status = Inr mp \<and> grouped (Peer status) (countries mp)"
  using newMullvadPeers_loop_grouped [OF grouped_empty, of "Peer status"]
  by (auto simp: newMullvadPeers_def)

lemmas example_defs = exampleStatus_def exampleSelf_def peerBerlin_def peerFrankfurt_def
  peerGothenburg_def peerHome_def peerLaptop_def mkPeer_def berlin_def frankfurt_def
  gothenburg_def exampleTaxonomy_def exampleGermany_def exampleSweden_def

lemma newMullvadPeers_example: "newMullvadPeers exampleStatus = Inr exampleTaxonomy"
  by (simp add: newMullvadPeers_def newMullvadPeers_body_def higherPriority_def example_defs)

lemma grouped_peersAt:
  assumes "grouped E (countries mp)"
  shows "peersAt mp cc k = filter (inBucket cc k) E"
proof (cases "map_of (countries mp) cc")
  case None
  then have "filter (inCountry cc) E = []"
    using assms by (auto simp: grouped_def countryOK_def dest: spec [of _ cc])
  then show ?thesis using None
    by (simp add: peersAt_def cityAt_def filter_inCountry_empty)
next
  case (Some c)
  then have "cityOK E cc k (map_of (country_cities c) k)"
    using assms by (auto simp: grouped_def countryOK_def dest: spec [of _ cc])
  then show ?thesis using Some
    by (cases "map_of (country_cities c) k") (auto simp: peersAt_def cityAt_def cityOK_def)
qed

lemma inBucket_unique:
  "inBucket cc k p \<Longrightarrow> inBucket cc' k' p \<Longrightarrow> cc' = cc \<and> k' = k"
  by (auto simp: inBucket_def split: option.splits)

lemma inBucket_exists:
  "ExitNodeOption p \<Longrightarrow> Location p = Some loc \<Longrightarrow> inBucket (CountryCode loc) (CityCode loc) p"
  by (simp add: inBucket_def)

lemma inBucket_qualifies: "inBucket cc k p \<Longrightarrow> ExitNodeOption p \<and> Location p \<noteq> None"
  by (auto simp: inBucket_def split: option.splits)

text \<open>
  Claim C1. For every status, \<open>newMullvadPeers\<close> returns a grouping (it does not panic) in
  which the bucket of a country code and a city code holds exactly the peers of the status
  that are exit-node options and carry a location with these two codes, each as often and
  in the order in which the status lists it. So every eligible located peer is in exactly
  one bucket, a peer that is not eligible or has no location is in none, and the union of
  all buckets is the set of eligible located peers.
\<close>

theorem newMullvadPeers_partition:
  "\<exists>mp. newMullvadPeers status = Inr mp \<and>
     (\<forall>cc k. peersAt mp cc k = filter (inBucket cc k) (Peer status)) \<and>
     (\<forall>p\<in>set (Peer status). ExitNodeOption p \<and> Location p \<noteq> None \<longrightarrow>
        (\<exists>!ck. p \<in> set (peersAt mp (fst ck) (snd ck)))) \<and>
     (\<forall>p. \<not> (ExitNodeOption p \<and> Location p \<noteq> None) \<longrightarrow>
        (\<forall>cc k. p \<notin> set (peersAt mp cc k))) \<and>
     (\<Union>cc. \<Union>k. set (peersAt mp cc k)) =
        {p \<in> set (Peer status). ExitNodeOption p \<and> Location p \<noteq> None}"
proof -
  from newMullvadPeers_grouped [of status] obtain mp where
    mp: "newMullvadPeers status = Inr mp" and g: "grouped (Peer status) (countries mp)"
    by blast
  have at: "\<And>cc k. peersAt mp cc k = filter (inBucket cc k) (Peer status)"
    using grouped_peersAt [OF g] by simp
  have one: "\<forall>p\<in>set (Peer status). ExitNodeOption p \<and> Location p \<noteq> None \<longrightarrow>
        (\<exists>!ck. p \<in> set (peersAt mp (fst ck) (snd ck)))"
  proof (intro ballI impI)
    fix p assume p: "p \<in> set (Peer status)" and q: "ExitNodeOption p \<and> Location p \<noteq> None"
    then obtain loc where loc: "Location p = Some loc" by auto
    show "\<exists>!ck. p \<in> set (peersAt mp (fst ck) (snd ck))"
    proof (rule ex1I [of _ "(CountryCode loc, CityCode loc)"])
      show "p \<in> set (peersAt mp (fst (CountryCode loc, CityCode loc))
                      (snd (CountryCode loc, CityCode loc)))"
        using p q loc by (simp add: at inBucket_exists)
    next
      fix ck assume "p \<in> set (peersAt mp (fst ck) (snd ck))"
      then have "inBucket (fst ck) (snd ck) p" by (simp add: at)
      from inBucket_unique [OF inBucket_exists [OF conjunct1 [OF q] loc] this]
      show "ck = (CountryCode loc, CityCode loc)" by (cases ck) simp
    qed
  qed
  have none: "\<forall>p. \<not> (ExitNodeOption p \<and> Location p \<noteq> None) \<longrightarrow>
        (\<forall>cc k. p \<notin> set (peersAt mp cc k))"
    by (auto simp: at dest: inBucket_qualifies)
  have un: "(\<Union>cc. \<Union>k. set (peersAt mp cc k)) =
        {p \<in> set (Peer status). ExitNodeOption p \<and> Location p \<noteq> None}"
  proof (rule set_eqI)
    fix p
    show "(p \<in> (\<Union>cc. \<Union>k. set (peersAt mp cc k))) =
          (p \<in> {p \<in> set (Peer status). ExitNodeOption p \<and> Location p \<noteq> None})"
      by (auto simp: at dest: inBucket_qualifies intro: inBucket_exists)
  qed
  show ?thesis using mp at one none un by blast
qed

theorem newMullvadPeers_partition_witness:
  "newMullvadPeers exampleStatus = Inr exampleTaxonomy \<and>
   peerFrankfurt \<in> set (Peer exampleStatus) \<and>
   ExitNodeOption peerFrankfurt \<and> Location peerFrankfurt \<noteq> None \<and>
   peersAt exampleTaxonomy ''DE'' ''fra'' = [peerFrankfurt] \<and>
   (\<exists>!ck. peerFrankfurt \<in> set (peersAt exampleTaxonomy (fst ck) (snd ck))) \<and>
   \<not> (ExitNodeOption peerHome \<and> Location peerHome \<noteq> None) \<and>
   peerHome \<notin> set (peersAt exampleTaxonomy ''DE'' ''fra'')"
proof -
  from newMullvadPeers_partition [of exampleStatus] obtain mp where
    mp: "newMullvadPeers exampleStatus = Inr mp"
    and at: "\<forall>cc k. peersAt mp cc k = filter (inBucket cc k) (Peer exampleStatus)"
    and one: "\<forall>p\<in>set (Peer exampleStatus). ExitNodeOption p \<and> Location p \<noteq> None \<longrightarrow>
        (\<exists>!ck. p \<in> set (peersAt mp (fst ck) (snd ck)))"
    and none: "\<forall>p. \<not> (ExitNodeOption p \<and> Location p \<noteq> None) \<longrightarrow>
        (\<forall>cc k. p \<notin> set (peersAt mp cc k))"
    by (elim exE conjE) (rule that)
  have eq: "mp = exampleTaxonomy" using mp newMullvadPeers_example by simp
  have mem: "peerFrankfurt \<in> set (Peer exampleStatus)" by (simp add: exampleStatus_def)
  have q: "ExitNodeOption peerFrankfurt \<and> Location peerFrankfurt \<noteq> None"
    by (simp add: peerFrankfurt_def mkPeer_def)
  have h: "\<not> (ExitNodeOption peerHome \<and> Location peerHome \<noteq> None)"
    by (simp add: peerHome_def mkPeer_def)
  have fra: "peersAt exampleTaxonomy ''DE'' ''fra'' = [peerFrankfurt]"
    by (simp add: peersAt_def cityAt_def exampleTaxonomy_def exampleGermany_def)
  have u: "\<exists>!ck. peerFrankfurt \<in> set (peersAt exampleTaxonomy (fst ck) (snd ck))"
    using one mem q unfolding eq by blast
  have n: "peerHome \<notin> set (peersAt exampleTaxonomy ''DE'' ''fra'')"
    using none h unfolding eq by blast
  from newMullvadPeers_example mem q fra u h n show ?thesis by (intro conjI) simp_all
qed

lemma pickBest_isBestOf:
  assumes ne: "xs \<noteq> []" and located: "\<forall>x\<in>set xs. Location x \<noteq> None"
  shows "isBestOf (pickBest None xs) (set xs)"
proof -
  from pickBest_nonempty [OF ne] obtain b where b: "pickBest None xs = Some b" by blast
  then have mem: "b \<in> set xs" by (rule pickBest_mem)
  with located obtain lb where lb: "Location b = Some lb" by auto
  have "\<forall>p\<in>set xs. \<exists>lp. Location p = Some lp \<and> Priority lp \<le> Priority lb"
  proof
    fix p assume p: "p \<in> set xs"
    with located obtain lp where lp: "Location p = Some lp" by auto
    from pickBest_max [OF b p] have "Priority lp \<le> Priority lb"
      by (simp add: priorityOf_def lp lb)
    with lp show "\<exists>lp. Location p = Some lp \<and> Priority lp \<le> Priority lb" by simp
  qed
  with b mem lb show ?thesis unfolding isBestOf_def by blast
qed

lemma countryOK_members:
  assumes "countryOK E cc (Some c)"
  shows "countryMembers c = set (filter (inCountry cc) E)"
proof (rule set_eqI)
  fix p
  have cities: "\<And>k. cityOK E cc k (map_of (country_cities c) k)"
    and dist: "distinct (map fst (country_cities c))"
    using assms by (auto simp: countryOK_def)
  show "(p \<in> countryMembers c) = (p \<in> set (filter (inCountry cc) E))"
  proof
    assume "p \<in> countryMembers c"
    then obtain k city where kc: "(k, city) \<in> set (country_cities c)"
      and p: "p \<in> set (city_peers city)"
      by (auto simp: countryMembers_def)
    from kc dist have "map_of (country_cities c) k = Some city" by simp
    with cities [of k] have "city_peers city = filter (inBucket cc k) E"
      by (simp add: cityOK_def)
    with p show "p \<in> set (filter (inCountry cc) E)"
      by (auto dest: inBucket_inCountry)
  next
    assume "p \<in> set (filter (inCountry cc) E)"
    then have pE: "p \<in> set E" and ic: "inCountry cc p" by auto
    then obtain loc where loc: "Location p = Some loc" and ex: "ExitNodeOption p"
      and cc: "CountryCode loc = cc"
      by (auto simp: inCountry_def split: option.splits)
    have ib: "inBucket cc (CityCode loc) p" using loc ex cc by (simp add: inBucket_def)
    with pE have ne: "filter (inBucket cc (CityCode loc)) E \<noteq> []"
      by (auto simp: filter_empty_conv)
    with cities [of "CityCode loc"] obtain city where
      m: "map_of (country_cities c) (CityCode loc) = Some city"
      and ps: "city_peers city = filter (inBucket cc (CityCode loc)) E"
      by (cases "map_of (country_cities c) (CityCode loc)") (auto simp: cityOK_def)
    from m have "(CityCode loc, city) \<in> set (country_cities c)" by (rule map_of_SomeD)
    moreover have "p \<in> set (city_peers city)" using ps pE ib by simp
    ultimately show "p \<in> countryMembers c" by (force simp: countryMembers_def)
  qed
qed

text \<open>
  Claim C2. In the grouping of any status, the best-peer field of every country and of
  every city is non-nil and references a member of that country or city, no bucket is
  empty, and the location priority of the best peer is greater than or equal to that of
  every member.
\<close>

theorem best_peer_is_member_of_max_priority:
  "\<exists>mp. newMullvadPeers status = Inr mp \<and>
     (\<forall>cc\<in>set (countries mp).
        isBestOf (country_best (snd cc)) (countryMembers (snd cc)) \<and>
        (\<forall>kc\<in>set (country_cities (snd cc)).
           city_peers (snd kc) \<noteq> [] \<and>
           isBestOf (city_best (snd kc)) (set (city_peers (snd kc)))))"
proof -
  from newMullvadPeers_grouped [of status] obtain mp where
    mp: "newMullvadPeers status = Inr mp" and g: "grouped (Peer status) (countries mp)"
    by blast
  have "\<forall>cc\<in>set (countries mp).
        isBestOf (country_best (snd cc)) (countryMembers (snd cc)) \<and>
        (\<forall>kc\<in>set (country_cities (snd cc)).
           city_peers (snd kc) \<noteq> [] \<and>
           isBestOf (city_best (snd kc)) (set (city_peers (snd kc))))"
  proof
    fix cc assume a: "cc \<in> set (countries mp)"
    obtain code c where cc: "cc = (code, c)" by (cases cc)
    with a have mem: "(code, c) \<in> set (countries mp)" by simp
    from g mem have "map_of (countries mp) code = Some c" by (simp add: grouped_def)
    with g have ok: "countryOK (Peer status) code (Some c)"
      by (auto simp: grouped_def dest: spec [of _ code])
    let ?G = "filter (inCountry code) (Peer status)"
    have "isBestOf (pickBest None ?G) (set ?G)"
      using ok inCountry_located by (intro pickBest_isBestOf) (auto simp: countryOK_def)
    then have country: "isBestOf (country_best c) (countryMembers c)"
      using ok countryOK_members [OF ok] by (simp add: countryOK_def)
    have city: "\<forall>kc\<in>set (country_cities c).
           city_peers (snd kc) \<noteq> [] \<and>
           isBestOf (city_best (snd kc)) (set (city_peers (snd kc)))"
    proof
      fix kc assume b: "kc \<in> set (country_cities c)"
      obtain k city where kc: "kc = (k, city)" by (cases kc)
      with b have m: "(k, city) \<in> set (country_cities c)" by simp
      from ok m have "map_of (country_cities c) k = Some city" by (simp add: countryOK_def)
      with ok have cok: "cityOK (Peer status) code k (Some city)"
        by (auto simp: countryOK_def dest: spec [of _ k])
      then have ps: "city_peers city = filter (inBucket code k) (Peer status)"
        and ne: "city_peers city \<noteq> []"
        and cb: "city_best city = pickBest None (city_peers city)"
        unfolding cityOK_def by auto
      have "\<forall>x\<in>set (city_peers city). Location x \<noteq> None"
        unfolding ps using inBucket_located by blast
      from pickBest_isBestOf [OF ne this] ne cb show "city_peers (snd kc) \<noteq> [] \<and>
           isBestOf (city_best (snd kc)) (set (city_peers (snd kc)))"
        by (simp add: kc)
    qed
    show "isBestOf (country_best (snd cc)) (countryMembers (snd cc)) \<and>
        (\<forall>kc\<in>set (country_cities (snd cc)).
           city_peers (snd kc) \<noteq> [] \<and>
           isBestOf (city_best (snd kc)) (set (city_peers (snd kc))))"
      using country city by (simp add: cc)
  qed
  with mp show ?thesis by blast
qed

theorem best_peer_is_member_of_max_priority_witness:
  "newMullvadPeers exampleStatus = Inr exampleTaxonomy \<and>
   (''DE'', exampleGermany) \<in> set (countries exampleTaxonomy) \<and>
   isBestOf (country_best exampleGermany) (countryMembers exampleGermany) \<and>
   country_best exampleGermany = Some peerFrankfurt \<and>
   (''ber'', \<lparr>city_name = ''Berlin'', city_best = Some peerBerlin,
              city_peers = [peerBerlin]\<rparr>) \<in> set (country_cities exampleGermany) \<and>
   isBestOf (Some peerBerlin) {peerBerlin}"
proof -
  from best_peer_is_member_of_max_priority [of exampleStatus] obtain mp where
    mp: "newMullvadPeers exampleStatus = Inr mp"
    and best: "\<forall>cc\<in>set (countries mp).
        isBestOf (country_best (snd cc)) (countryMembers (snd cc)) \<and>
        (\<forall>kc\<in>set (country_cities (snd cc)).
           city_peers (snd kc) \<noteq> [] \<and>
           isBestOf (city_best (snd kc)) (set (city_peers (snd kc))))"
    by (elim exE conjE) (rule that)
  have eq: "mp = exampleTaxonomy" using mp newMullvadPeers_example by simp
  have de: "(''DE'', exampleGermany) \<in> set (countries exampleTaxonomy)"
    by (simp add: exampleTaxonomy_def)
  have ber: "(''ber'', \<lparr>city_name = ''Berlin'', city_best = Some peerBerlin,
              city_peers = [peerBerlin]\<rparr>) \<in> set (country_cities exampleGermany)"
    by (simp add: exampleGermany_def)
  from best [unfolded eq, rule_format, OF de]
  have c: "isBestOf (country_best exampleGermany) (countryMembers exampleGermany)"
    and cities: "\<forall>kc\<in>set (country_cities exampleGermany).
           city_peers (snd kc) \<noteq> [] \<and>
           isBestOf (city_best (snd kc)) (set (city_peers (snd kc)))"
    by simp_all
  from cities [rule_format, OF ber] have b: "isBestOf (Some peerBerlin) {peerBerlin}" by simp
  have f: "country_best exampleGermany = Some peerFrankfurt" by (simp add: exampleGermany_def)
  from newMullvadPeers_example de c f ber b show ?thesis by (intro conjI)
qed

subsection \<open>The exit-node menu\<close>

lemma Check_idem [simp]: "Check (Check m) = Check m"
  by (cases m) auto

lemma Check_addChild [simp]: "Check (addChild m x) = addChild (Check m) x"
  by (cases m) auto

lemma checkIf_simps [simp]:
  "checkIf False m = m" "checkIf True m = Check m"
  "checkIf a (checkIf b m) = checkIf (a \<or> b) m"
  "checkIf a (Check m) = Check m"
  "Check (checkIf a m) = Check m"
  "addChild (checkIf a m) x = checkIf a (addChild m x)"
  by (auto simp: checkIf_def)

lemma checkPeers3_eq:
  "checkPeers3 x ps (a, b, c) =
     (checkIf (\<exists>p\<in>set ps. x = ID p) a, checkIf (\<exists>p\<in>set ps. x = ID p) b,
      checkIf (\<exists>p\<in>set ps. x = ID p) c)"
proof (induction ps arbitrary: a b c)
  case Nil
  then show ?case by simp
next
  case (Cons p ps)
  show ?case
  proof (cases "ID p = x")
    case True
    then show ?thesis using Cons.IH by (auto simp: checkIf_def)
  next
    case False
    then show ?thesis using Cons.IH by (auto simp: checkIf_def)
  qed
qed

lemma checkPeers2_eq:
  "checkPeers2 x ps (a, b) =
     (checkIf (\<exists>p\<in>set ps. x = ID p) a, checkIf (\<exists>p\<in>set ps. x = ID p) b)"
proof (induction ps arbitrary: a b)
  case Nil
  then show ?case by simp
next
  case (Cons p ps)
  show ?case
  proof (cases "ID p = x")
    case True
    then show ?thesis using Cons.IH by (auto simp: checkIf_def)
  next
    case False
    then show ?thesis using Cons.IH by (auto simp: checkIf_def)
  qed
qed

lemma checkCities2_eq:
  "checkCities2 x cities (a, b) =
     (checkIf (\<exists>city\<in>set cities. \<exists>p\<in>set (city_peers city). x = ID p) a,
      checkIf (\<exists>city\<in>set cities. \<exists>p\<in>set (city_peers city). x = ID p) b)"
proof (induction cities arbitrary: a b)
  case Nil
  then show ?case by simp
next
  case (Cons city cities)
  show ?case
    by (simp add: checkPeers2_eq Cons.IH) (auto simp: checkIf_def)
qed

lemma foldl_addChild_checkIf:
  "foldl addChild (checkIf h m) xs = checkIf h (foldl addChild m xs)"
  by (induction xs arbitrary: m) simp_all

lemma foldl_addChild_MenuItem:
  "foldl addChild (MenuItem t tip cb c d h l ch) xs = MenuItem t tip cb c d h l (ch @ xs)"
  by (induction xs arbitrary: ch) simp_all

lemma activeInCity_eq:
  "activeInCity status city =
     (case ExitNodeStatus status of
        None \<Rightarrow> False
      | Some es \<Rightarrow> \<exists>p\<in>set (city_peers city). ExitNode_ID es = ID p)"
proof (cases "ExitNodeStatus status")
  case None
  then show ?thesis by (simp add: activeInCity_def isActive_def)
next
  case (Some es)
  show ?thesis unfolding activeInCity_def isActive_def Some by force
qed

lemma cities_loop_eq:
  assumes "\<forall>city\<in>set cities. city_best city \<noteq> None"
  shows "cities_loop status cities (mm, cm) =
     Inr (checkIf (\<exists>city\<in>set cities. activeInCity status city) mm,
          checkIf (\<exists>city\<in>set cities. activeInCity status city)
            (foldl addChild cm (map (cityItem status) cities)))"
  using assms
proof (induction cities arbitrary: mm cm)
  case Nil
  then show ?case by simp
next
  case (Cons city cities)
  from Cons.prems obtain b where b: "city_best city = Some b" by auto
  from Cons.prems have rest: "\<forall>city\<in>set cities. city_best city \<noteq> None" by simp
  let ?h = "activeInCity status city"
  let ?cityMenu = "onClick (AddSubMenuItemCheckbox (city_name city) [] False) (ID b)"
  have chk: "(case ExitNodeStatus status of
                      None \<Rightarrow> (mm, cm, ?cityMenu)
                    | Some es \<Rightarrow> checkPeers3 (ExitNode_ID es) (city_peers city)
                                  (mm, cm, ?cityMenu)) =
             (checkIf ?h mm, checkIf ?h cm, checkIf ?h ?cityMenu)"
    by (cases "ExitNodeStatus status") (simp_all add: activeInCity_eq checkPeers3_eq)
  have item: "checkIf ?h ?cityMenu = cityItem status city"
    by (simp add: cityItem_def b)
  have "cities_loop status (city # cities) (mm, cm) =
        cities_loop status cities (checkIf ?h mm, addChild (checkIf ?h cm) (cityItem status city))"
    by (simp add: b chk item Let_def)
  also have "\<dots> = Inr (checkIf (\<exists>city\<in>set cities. activeInCity status city) (checkIf ?h mm),
          checkIf (\<exists>city\<in>set cities. activeInCity status city)
            (foldl addChild (addChild (checkIf ?h cm) (cityItem status city))
               (map (cityItem status) cities)))"
    by (rule Cons.IH [OF rest])
  also have "\<dots> = Inr (checkIf (\<exists>c\<in>set (city # cities). activeInCity status c) mm,
          checkIf (\<exists>c\<in>set (city # cities). activeInCity status c)
            (foldl addChild cm (map (cityItem status) (city # cities))))"
    by (simp add: foldl_addChild_checkIf disj_commute)
  finally show ?case .
qed

lemma activeInCountry_eq:
  "activeInCountry status country =
     (case ExitNodeStatus status of
        None \<Rightarrow> False
      | Some es \<Rightarrow> \<exists>city\<in>set (map snd (country_cities country)).
                     \<exists>p\<in>set (city_peers city). ExitNode_ID es = ID p)"
  by (cases "ExitNodeStatus status") (auto simp: activeInCountry_def activeInCity_eq)

lemma activeInCountry_sorted:
  "(\<exists>city\<in>set (sortedCities country). activeInCity status city) =
   activeInCountry status country"
  by (auto simp: sortedCities_def activeInCountry_def)

lemma countries_loop_step:
  assumes wf: "wellFormed country"
  shows "countries_loop status (country # rest) mm =
         countries_loop status rest
           (addChild (checkIf (activeInCountry status country) mm) (countryItem status country))"
proof -
  from wf obtain b where b: "country_best country = Some b" by (auto simp: wellFormed_def)
  let ?h = "activeInCountry status country"
  let ?cm = "AddSubMenuItemCheckbox
               (countryFlag (country_code country) @ '' '' @ country_name country) [] False"
  show ?thesis
  proof (cases "length (country_cities country) = 1")
    case True
    have chk: "(case ExitNodeStatus status of
                         None \<Rightarrow> (mm, onClick ?cm (ID b))
                       | Some es \<Rightarrow> checkCities2 (ExitNode_ID es)
                                     (map snd (country_cities country))
                                     (mm, onClick ?cm (ID b))) =
               (checkIf ?h mm, checkIf ?h (onClick ?cm (ID b)))"
      by (cases "ExitNodeStatus status") (simp_all add: activeInCountry_eq checkCities2_eq)
    have item: "checkIf ?h (onClick ?cm (ID b)) = countryItem status country"
      using True by (simp add: countryItem_def b checkIf_def onClick_def
          AddSubMenuItemCheckbox_def)
    show ?thesis using True by (simp add: b chk item Let_def del: append.simps)
  next
    case False
    let ?bm = "onClick (AddSubMenuItemCheckbox ''Best Available'' [] False) (ID b)"
    have cities: "\<forall>city\<in>set (sortedCities country). city_best city \<noteq> None"
      using wf by (auto simp: wellFormed_def sortedCities_def)
    have item: "checkIf ?h (foldl addChild (addChild (addChild ?cm ?bm) Separator)
                   (map (cityItem status) (sortedCities country))) =
                countryItem status country"
      using False by (simp add: countryItem_def b checkIf_def AddSubMenuItemCheckbox_def
          foldl_addChild_MenuItem)
    show ?thesis using False
      by (simp add: b Let_def cities_loop_eq [OF cities] activeInCountry_sorted item
          del: append.simps)
  qed
qed

lemma countries_loop_eq:
  assumes "\<forall>c\<in>set cs. wellFormed c"
  shows "countries_loop status cs mm =
     Inr (checkIf (\<exists>c\<in>set cs. activeInCountry status c)
            (foldl addChild mm (map (countryItem status) cs)))"
  using assms
proof (induction cs arbitrary: mm)
  case Nil
  then show ?case by simp
next
  case (Cons c cs)
  from Cons.prems have wf: "wellFormed c" and rest: "\<forall>c\<in>set cs. wellFormed c" by simp_all
  show ?case
    unfolding countries_loop_step [OF wf] Cons.IH [OF rest]
    by (simp add: foldl_addChild_checkIf disj_commute)
qed

lemma grouped_country_facts:
  assumes g: "grouped E cs" and mem: "(cc, c) \<in> set cs"
  shows "wellFormed c" and "country_cities c \<noteq> []"
    and "country_cities c = [kc] \<Longrightarrow> country_best c = city_best (snd kc)"
proof -
  from g mem have m: "map_of cs cc = Some c" by (simp add: grouped_def)
  with g have ok: "countryOK E cc (Some c)"
    by (auto simp: grouped_def dest: spec [of _ cc])
  let ?G = "filter (inCountry cc) E"
  from ok have ne: "?G \<noteq> []" and best: "country_best c = pickBest None ?G"
    and dist: "distinct (map fst (country_cities c))"
    and cities: "\<And>k. cityOK E cc k (map_of (country_cities c) k)"
    unfolding countryOK_def by auto
  have cb: "country_best c \<noteq> None" using pickBest_nonempty [OF ne] best by auto
  have city_b: "\<forall>kc\<in>set (country_cities c). city_best (snd kc) \<noteq> None"
  proof
    fix kc assume a: "kc \<in> set (country_cities c)"
    obtain k city where kc: "kc = (k, city)" by (cases kc)
    with a dist have "map_of (country_cities c) k = Some city" by simp
    with cities [of k] have "city_peers city \<noteq> []"
      and "city_best city = pickBest None (city_peers city)"
      unfolding cityOK_def by auto
    then show "city_best (snd kc) \<noteq> None"
      using pickBest_nonempty [of "city_peers city"] by (auto simp: kc)
  qed
  show "wellFormed c" using cb city_b by (simp add: wellFormed_def)
  from ne obtain p where p: "p \<in> set E" "inCountry cc p"
    by (auto simp: filter_empty_conv)
  have bucket: "\<And>p. p \<in> set E \<Longrightarrow> inCountry cc p \<Longrightarrow>
     \<exists>k city. map_of (country_cities c) k = Some city \<and> inBucket cc k p"
  proof -
    fix p assume pE: "p \<in> set E" and ic: "inCountry cc p"
    then obtain loc where loc: "Location p = Some loc" "ExitNodeOption p" "CountryCode loc = cc"
      by (auto simp: inCountry_def split: option.splits)
    then have ib: "inBucket cc (CityCode loc) p" by (simp add: inBucket_def)
    with pE have "filter (inBucket cc (CityCode loc)) E \<noteq> []"
      by (auto simp: filter_empty_conv)
    with cities [of "CityCode loc"] obtain city where
      "map_of (country_cities c) (CityCode loc) = Some city"
      by (cases "map_of (country_cities c) (CityCode loc)") (auto simp: cityOK_def)
    with ib show "\<exists>k city. map_of (country_cities c) k = Some city \<and> inBucket cc k p"
      by blast
  qed
  from bucket [OF p] show "country_cities c \<noteq> []" by auto
  show "country_best c = city_best (snd kc)" if single: "country_cities c = [kc]"
  proof -
    obtain k city where kc: "kc = (k, city)" by (cases kc)
    have "\<And>p. p \<in> set E \<Longrightarrow> inCountry cc p = inBucket cc k p"
    proof -
      fix p assume pE: "p \<in> set E"
      show "inCountry cc p = inBucket cc k p"
      proof
        assume "inCountry cc p"
        from bucket [OF pE this] show "inBucket cc k p"
          by (auto simp: single kc split: if_splits)
      next
        assume "inBucket cc k p"
        then show "inCountry cc p" by (rule inBucket_inCountry)
      qed
    qed
    then have eq: "?G = filter (inBucket cc k) E" by (auto intro: filter_cong)
    from cities [of k] have "city_peers city = filter (inBucket cc k) E"
      and "city_best city = pickBest None (city_peers city)"
      unfolding cityOK_def by (auto simp: single kc)
    with best eq show ?thesis by (simp add: kc)
  qed
qed

lemma newMullvadPeers_sorted_facts:
  assumes "newMullvadPeers status = Inr mp" and "c \<in> set (sortedCountries mp)"
  shows "wellFormed c" and "country_cities c \<noteq> []"
    and "country_cities c = [kc] \<Longrightarrow> country_best c = city_best (snd kc)"
proof -
  from newMullvadPeers_grouped [of status] assms(1)
  have g: "grouped (Peer status) (countries mp)" by auto
  from assms(2) obtain cc where mem: "(cc, c) \<in> set (countries mp)"
    by (auto simp: sortedCountries_def)
  show "wellFormed c" using grouped_country_facts(1) [OF g mem] .
  show "country_cities c \<noteq> []" using grouped_country_facts(2) [OF g mem] .
  show "country_cities c = [kc] \<Longrightarrow> country_best c = city_best (snd kc)"
    using grouped_country_facts(3) [OF g mem] .
qed

lemma mullvad_eq:
  assumes cap: "''mullvad'' \<in> set (CapMap self)" and mp: "newMullvadPeers status = Inr mp"
  shows "mullvad status self =
     Inr (if countries mp = [] then []
          else [Separator, Disable (AddSubMenuItem ''Location-based Exit Nodes'' []),
                MenuItem ''Mullvad VPN'' [] True
                  (\<exists>c\<in>set (sortedCountries mp). activeInCountry status c) False False None
                  (map (countryItem status) (sortedCountries mp))])"
proof -
  have wf: "\<forall>c\<in>set (sortedCountries mp). wellFormed c"
    using newMullvadPeers_sorted_facts(1) [OF mp] by blast
  show ?thesis
    unfolding mullvad_def
    by (simp add: cap mp countries_loop_eq [OF wf] AddSubMenuItemCheckbox_def
        foldl_addChild_MenuItem checkIf_def)
qed

lemma mullvad_nocap:
  "''mullvad'' \<notin> set (CapMap self) \<Longrightarrow> mullvad status self = Inr []"
  by (simp add: mullvad_def)

lemma mullvad_total: "\<exists>items. mullvad status self = Inr items"
proof (cases "''mullvad'' \<in> set (CapMap self)")
  case True
  from newMullvadPeers_grouped [of status] obtain mp where "newMullvadPeers status = Inr mp"
    by blast
  from mullvad_eq [OF True this] show ?thesis by blast
next
  case False
  then show ?thesis by (simp add: mullvad_nocap)
qed

lemma countryItem_renders:
  assumes wf: "wellFormed c" and ne: "country_cities c \<noteq> []"
    and single: "\<And>kc. country_cities c = [kc] \<Longrightarrow> country_best c = city_best (snd kc)"
  shows "rendersCountry c (countryItem status c)"
proof -
  from wf obtain b where b: "country_best c = Some b" by (auto simp: wellFormed_def)
  show ?thesis
  proof (cases "length (country_cities c) = 1")
    case True
    then obtain kc where kc: "country_cities c = [kc]"
      by (cases "country_cities c") auto
    from single [OF kc] b have "city_best (snd kc) = Some b" by simp
    then show ?thesis
      using True kc by (simp add: rendersCountry_def countryItem_def b hasBestAvailable_def)
  next
    case False
    with ne have gt: "length (country_cities c) > 1"
      by (cases "country_cities c") auto
    show ?thesis
      using False gt
      by (simp add: rendersCountry_def countryItem_def b hasBestAvailable_def
          onClick_def AddSubMenuItemCheckbox_def sortedCities_def)
  qed
qed

lemma rebuildExitNodeMenu_eq:
  assumes self: "Self status = Some self" and m: "mullvad status self = Inr items"
  shows "rebuildExitNodeMenu attr suggestion (Some status) =
     Inr (MenuItem ''Exit Nodes'' [] False False False False None
            (noExitNodeMenu status # recommended attr suggestion status self @
             tailnet status @ items))"
  by (simp add: rebuildExitNodeMenu_def self m)

lemma tailnet_loop_renders:
  "list_all2 (rendersPeer status)
     (filter (\<lambda>ps. ExitNodeOption ps \<and> Location ps = None) ps) (tailnet_loop status ps)"
proof (induction ps)
  case Nil
  then show ?case by simp
next
  case (Cons p ps)
  show ?case
  proof (cases "\<not> ExitNodeOption p \<or> Location p \<noteq> None")
    case True
    then show ?thesis using Cons.IH by auto
  next
    case False
    then show ?thesis using Cons.IH
      by (cases "ExitNodeStatus status"; cases "Online p")
        (simp_all add: Let_def rendersPeer_def onClick_def AddSubMenuItemCheckbox_def
          isActive_def)
  qed
qed

text \<open>
  Claim C9. For a status with a non-nil own node, the exit-node menu is built and shows,
  after the None entry and the Recommended section, one entry per eligible peer without
  location, in the order of \<open>status.Peer\<close>; each of these entries is disabled iff its peer
  is offline and checked iff the status has an active exit node with the id of the peer.
\<close>

theorem tailnet_entries_rendering:
  assumes "Self status = Some self"
  shows "\<exists>mv menu items.
     mullvad status self = Inr mv \<and>
     rebuildExitNodeMenu attr suggestion (Some status) = Inr menu \<and>
     children menu =
       noExitNodeMenu status # recommended attr suggestion status self @
       (if tailnetPeers status = [] then []
        else Separator # Disable (AddSubMenuItem ''Tailnet Exit Nodes'' []) # items) @ mv \<and>
     length items = length (tailnetPeers status) \<and>
     (\<forall>i<length (tailnetPeers status). rendersPeer status (tailnetPeers status ! i) (items ! i))"
proof -
  from mullvad_total [of status self] obtain mv where mv: "mullvad status self = Inr mv"
    by blast
  let ?items = "tailnet_loop status (Peer status)"
  have l2: "list_all2 (rendersPeer status) (tailnetPeers status) ?items"
    unfolding tailnetPeers_def by (rule tailnet_loop_renders)
  have ch: "tailnet status =
       (if tailnetPeers status = [] then []
        else Separator # Disable (AddSubMenuItem ''Tailnet Exit Nodes'' []) # ?items)"
    by (simp add: tailnet_def tailnetPeers_def Let_def)
  have len: "length ?items = length (tailnetPeers status)"
    using l2 by (simp add: list_all2_lengthD)
  have nth: "\<forall>i<length (tailnetPeers status).
     rendersPeer status (tailnetPeers status ! i) (?items ! i)"
    using l2 by (simp add: list_all2_conv_all_nth)
  define menu where "menu = MenuItem ''Exit Nodes'' [] False False False False None
            (noExitNodeMenu status # recommended attr suggestion status self @
             tailnet status @ mv)"
  have r: "rebuildExitNodeMenu attr suggestion (Some status) = Inr menu"
    unfolding menu_def by (rule rebuildExitNodeMenu_eq [OF assms mv])
  have c: "children menu =
       noExitNodeMenu status # recommended attr suggestion status self @
       (if tailnetPeers status = [] then []
        else Separator # Disable (AddSubMenuItem ''Tailnet Exit Nodes'' []) # ?items) @ mv"
    by (simp add: menu_def ch)
  from mv r c len nth show ?thesis by blast
qed

lemma tailnetPeers_example: "tailnetPeers exampleStatus = [peerHome]"
  by (simp add: tailnetPeers_def example_defs)

theorem tailnet_entries_rendering_witness:
  "Self exampleStatus = Some exampleSelf \<and> tailnetPeers exampleStatus = [peerHome] \<and>
   \<not> Online peerHome \<and>
   (\<exists>item. rendersPeer exampleStatus peerHome item \<and> disabled item \<and> \<not> checked item)"
proof -
  have self: "Self exampleStatus = Some exampleSelf" by (simp add: exampleStatus_def)
  from tailnet_entries_rendering [OF self, of "''suggest-exit-node''" exampleSuggestion]
  obtain items where
    r: "\<forall>i<length (tailnetPeers exampleStatus).
          rendersPeer exampleStatus (tailnetPeers exampleStatus ! i) (items ! i)"
    by (elim exE conjE)
  have off: "\<not> Online peerHome" by (simp add: peerHome_def mkPeer_def)
  from r have h: "rendersPeer exampleStatus peerHome (items ! 0)"
    by (simp add: tailnetPeers_example)
  then have "disabled (items ! 0) \<and> \<not> checked (items ! 0)"
    using off by (simp add: rendersPeer_def example_defs)
  with self h off tailnetPeers_example show ?thesis by blast
qed

text \<open>
  Claim C4. For a status whose own node has the mullvad capability, the menu is built
  (no panic) and its last entry, "Mullvad VPN", has one sub-entry per country, in the order
  of \<open>sortedCountries\<close>. The entry of a country has a sub-entry "Best Available" iff the
  country has more than one city; the entry of a country with exactly one city has no
  sub-entries and its click sends the id of that city's best peer.
\<close>

theorem country_entry_rendering:
  assumes "Self status = Some self" and "''mullvad'' \<in> set (CapMap self)"
  shows "\<exists>mp menu. newMullvadPeers status = Inr mp \<and>
     rebuildExitNodeMenu attr suggestion (Some status) = Inr menu \<and>
     (countries mp \<noteq> [] \<longrightarrow>
       (\<exists>front mm. children menu = front @ [mm] \<and> title mm = ''Mullvad VPN'' \<and>
          length (children mm) = length (sortedCountries mp) \<and>
          (\<forall>i<length (sortedCountries mp).
             rendersCountry (sortedCountries mp ! i) (children mm ! i))))"
proof -
  from newMullvadPeers_grouped [of status] obtain mp where
    mp: "newMullvadPeers status = Inr mp" by blast
  let ?mm = "MenuItem ''Mullvad VPN'' [] True
                  (\<exists>c\<in>set (sortedCountries mp). activeInCountry status c) False False None
                  (map (countryItem status) (sortedCountries mp))"
  let ?items = "if countries mp = [] then []
          else [Separator, Disable (AddSubMenuItem ''Location-based Exit Nodes'' []), ?mm]"
  have m: "mullvad status self = Inr ?items"
    by (rule mullvad_eq [OF assms(2) mp])
  define menu where "menu = MenuItem ''Exit Nodes'' [] False False False False None
            (noExitNodeMenu status # recommended attr suggestion status self @
             tailnet status @ ?items)"
  have r: "rebuildExitNodeMenu attr suggestion (Some status) = Inr menu"
    unfolding menu_def by (rule rebuildExitNodeMenu_eq [OF assms(1) m])
  have each: "\<forall>i<length (sortedCountries mp).
             rendersCountry (sortedCountries mp ! i) (children ?mm ! i)"
  proof (intro allI impI)
    fix i assume i: "i < length (sortedCountries mp)"
    then have mem: "sortedCountries mp ! i \<in> set (sortedCountries mp)" by simp
    have "rendersCountry (sortedCountries mp ! i) (countryItem status (sortedCountries mp ! i))"
      using newMullvadPeers_sorted_facts [OF mp mem] by (intro countryItem_renders)
    then show "rendersCountry (sortedCountries mp ! i) (children ?mm ! i)"
      using i by simp
  qed
  have c: "countries mp \<noteq> [] \<longrightarrow>
       (\<exists>front mm. children menu = front @ [mm] \<and> title mm = ''Mullvad VPN'' \<and>
          length (children mm) = length (sortedCountries mp) \<and>
          (\<forall>i<length (sortedCountries mp).
             rendersCountry (sortedCountries mp ! i) (children mm ! i)))"
  proof
    assume ne: "countries mp \<noteq> []"
    let ?front = "noExitNodeMenu status # recommended attr suggestion status self @
             tailnet status @ [Separator, Disable (AddSubMenuItem ''Location-based Exit Nodes'' [])]"
    have "children menu = ?front @ [?mm]" using ne by (simp add: menu_def)
    moreover have "title ?mm = ''Mullvad VPN''" by simp
    moreover have "length (children ?mm) = length (sortedCountries mp)" by simp
    ultimately show "\<exists>front mm. children menu = front @ [mm] \<and> title mm = ''Mullvad VPN'' \<and>
          length (children mm) = length (sortedCountries mp) \<and>
          (\<forall>i<length (sortedCountries mp).
             rendersCountry (sortedCountries mp ! i) (children mm ! i))"
      using each by blast
  qed
  from mp r c show ?thesis by blast
qed

lemma sortedCountries_example:
  "sortedCountries exampleTaxonomy = [exampleGermany, exampleSweden]"
  by (simp add: sortedCountries_def exampleTaxonomy_def exampleGermany_def exampleSweden_def)

theorem country_entry_rendering_witness:
  "Self exampleStatus = Some exampleSelf \<and> ''mullvad'' \<in> set (CapMap exampleSelf) \<and>
   newMullvadPeers exampleStatus = Inr exampleTaxonomy \<and> countries exampleTaxonomy \<noteq> [] \<and>
   sortedCountries exampleTaxonomy = [exampleGermany, exampleSweden] \<and>
   length (country_cities exampleGermany) > 1 \<and> length (country_cities exampleSweden) = 1 \<and>
   (\<exists>germany sweden.
      rendersCountry exampleGermany germany \<and> hasBestAvailable germany \<and>
      rendersCountry exampleSweden sweden \<and> children sweden = [] \<and>
      listener sweden = Some (SendExitNode ''nGOT''))"
proof -
  have self: "Self exampleStatus = Some exampleSelf" by (simp add: exampleStatus_def)
  have cap: "''mullvad'' \<in> set (CapMap exampleSelf)" by (simp add: exampleSelf_def)
  have ne: "countries exampleTaxonomy \<noteq> []" by (simp add: exampleTaxonomy_def)
  have de: "length (country_cities exampleGermany) > 1" by (simp add: exampleGermany_def)
  have se: "length (country_cities exampleSweden) = 1" by (simp add: exampleSweden_def)
  from country_entry_rendering [OF self cap, of "''suggest-exit-node''" exampleSuggestion]
  obtain mp where mp: "newMullvadPeers exampleStatus = Inr mp"
    and c: "countries mp \<noteq> [] \<longrightarrow>
       (\<exists>mm. \<forall>i<length (sortedCountries mp).
             rendersCountry (sortedCountries mp ! i) (children mm ! i))"
    by (elim exE conjE) blast
  have eq: "mp = exampleTaxonomy" using mp newMullvadPeers_example by simp
  from c ne obtain mm where
    all: "\<forall>i<length (sortedCountries exampleTaxonomy).
             rendersCountry (sortedCountries exampleTaxonomy ! i) (children mm ! i)"
    unfolding eq by blast
  from all [rule_format, of 0] have g: "rendersCountry exampleGermany (children mm ! 0)"
    by (simp add: sortedCountries_example)
  from all [rule_format, of 1] have s: "rendersCountry exampleSweden (children mm ! 1)"
    by (simp add: sortedCountries_example)
  from g de have gb: "hasBestAvailable (children mm ! 0)" by (simp add: rendersCountry_def)
  from s se have sc: "children (children mm ! 1) = []"
    and sl: "listener (children mm ! 1) = Some (SendExitNode ''nGOT'')"
    by (auto simp: rendersCountry_def exampleSweden_def peerGothenburg_def mkPeer_def)
  from self cap newMullvadPeers_example ne sortedCountries_example de se g gb s sc sl
  show ?thesis by blast
qed

subsection \<open>The check marks of the exit-node menu\<close>

lemma filter_le1:
  "distinct xs \<Longrightarrow> (\<And>x y. x \<in> set xs \<Longrightarrow> y \<in> set xs \<Longrightarrow> P x \<Longrightarrow> P y \<Longrightarrow> x = y) \<Longrightarrow>
   length (filter P xs) \<le> 1"
proof (induction xs)
  case Nil
  then show ?case by simp
next
  case (Cons a xs)
  have le: "length (filter P xs) \<le> 1" using Cons by auto
  show ?case
  proof (cases "P a")
    case True
    have "filter P xs = []"
    proof (rule ccontr)
      assume "filter P xs \<noteq> []"
      then obtain y where y: "y \<in> set xs" "P y" by (auto simp: filter_empty_conv)
      with Cons.prems(2) [of a y] True have "a = y" by simp
      with y Cons.prems(1) show False by simp
    qed
    with True show ?thesis by simp
  next
    case False
    with le show ?thesis by simp
  qed
qed

lemma filter_eq1:
  assumes "distinct xs" and "\<And>x y. x \<in> set xs \<Longrightarrow> y \<in> set xs \<Longrightarrow> P x \<Longrightarrow> P y \<Longrightarrow> x = y"
    and "\<exists>x\<in>set xs. P x"
  shows "length (filter P xs) = 1"
proof -
  have "length (filter P xs) \<le> 1" using assms(1,2) by (rule filter_le1)
  moreover have "filter P xs \<noteq> []" using assms(3) by (auto simp: filter_empty_conv)
  ultimately show ?thesis by (cases "filter P xs") auto
qed

lemma distinct_map_eq:
  "distinct (map f xs) \<Longrightarrow> x \<in> set xs \<Longrightarrow> y \<in> set xs \<Longrightarrow> f x = f y \<Longrightarrow> x = y"
  by (meson distinct_map inj_on_eq_iff)

lemma grouped_distinct_countries:
  assumes g: "grouped E cs"
  shows "distinct (map snd cs)"
proof -
  have code: "\<And>cc c. (cc, c) \<in> set cs \<Longrightarrow> country_code c = cc"
  proof -
    fix cc c assume "(cc, c) \<in> set cs"
    with g have "map_of cs cc = Some c" by (simp add: grouped_def)
    with g have "countryOK E cc (Some c)" by (auto simp: grouped_def dest: spec [of _ cc])
    then show "country_code c = cc" by (simp add: countryOK_def)
  qed
  have "inj_on snd (set cs)"
  proof (rule inj_onI)
    fix x y assume "x \<in> set cs" "y \<in> set cs" "snd x = snd y"
    then show "x = y" using code [of "fst x" "snd x"] code [of "fst y" "snd y"]
      by (cases x; cases y) auto
  qed
  moreover have "distinct cs" using g by (auto simp: grouped_def distinct_map)
  ultimately show ?thesis by (simp add: distinct_map)
qed

lemma grouped_distinct_cities:
  assumes g: "grouped E cs" and mem: "(cc, c) \<in> set cs"
  shows "distinct (map snd (country_cities c))"
proof -
  from g mem have "map_of cs cc = Some c" by (simp add: grouped_def)
  with g have ok: "countryOK E cc (Some c)" by (auto simp: grouped_def dest: spec [of _ cc])
  then have dist: "distinct (map fst (country_cities c))"
    and cities: "\<And>k. cityOK E cc k (map_of (country_cities c) k)"
    unfolding countryOK_def by auto
  have peers: "\<And>k city. (k, city) \<in> set (country_cities c) \<Longrightarrow>
      city_peers city = filter (inBucket cc k) E \<and> city_peers city \<noteq> []"
  proof -
    fix k city assume "(k, city) \<in> set (country_cities c)"
    with dist have "map_of (country_cities c) k = Some city" by simp
    with cities [of k] show "city_peers city = filter (inBucket cc k) E \<and> city_peers city \<noteq> []"
      unfolding cityOK_def by auto
  qed
  have "inj_on snd (set (country_cities c))"
  proof (rule inj_onI)
    fix x y assume x: "x \<in> set (country_cities c)" and y: "y \<in> set (country_cities c)"
      and eq: "snd x = snd y"
    obtain k city where xk: "x = (k, city)" by (cases x)
    obtain k' city' where yk: "y = (k', city')" by (cases y)
    from peers [of k city] x xk have p1: "city_peers city = filter (inBucket cc k) E"
      and ne: "city_peers city \<noteq> []" by auto
    from peers [of k' city'] y yk have p2: "city_peers city' = filter (inBucket cc k') E" by auto
    from ne obtain p where p: "p \<in> set (city_peers city)" by (cases "city_peers city") auto
    from p p1 have "p \<in> set (filter (inBucket cc k) E)" by simp
    then have b1: "inBucket cc k p" by simp
    from eq xk yk have "city' = city" by simp
    with p p2 have "p \<in> set (filter (inBucket cc k') E)" by simp
    then have b2: "inBucket cc k' p" by simp
    note b1 b2
    then have "k' = k" using inBucket_unique by blast
    with eq xk yk show "x = y" by simp
  qed
  moreover have "distinct (country_cities c)" using dist by (auto simp: distinct_map)
  ultimately show ?thesis by (simp add: distinct_map)
qed

lemma isActive_same: "isActive status a \<Longrightarrow> isActive status b \<Longrightarrow> a = b"
  by (cases "ExitNodeStatus status") (auto simp: isActive_def)

lemma grouped_city_peers:
  assumes g: "grouped E cs" and mem: "(cc, c) \<in> set cs"
    and city: "(k, city) \<in> set (country_cities c)"
  shows "city_peers city = filter (inBucket cc k) E"
proof -
  from g mem have "map_of cs cc = Some c" by (simp add: grouped_def)
  with g have ok: "countryOK E cc (Some c)" by (auto simp: grouped_def dest: spec [of _ cc])
  then have dist: "distinct (map fst (country_cities c))"
    and cities: "\<And>k. cityOK E cc k (map_of (country_cities c) k)"
    unfolding countryOK_def by auto
  from city dist have "map_of (country_cities c) k = Some city" by simp
  with cities [of k] show ?thesis unfolding cityOK_def by auto
qed

lemma active_city_unique:
  assumes g: "grouped E cs" and ids: "distinct (map ID E)"
    and c: "(cc, c) \<in> set cs" and c': "(cc', c') \<in> set cs"
    and k: "(k, city) \<in> set (country_cities c)" and k': "(k', city') \<in> set (country_cities c')"
    and a: "activeInCity status city" and a': "activeInCity status city'"
  shows "c = c' \<and> city = city'"
proof -
  from a obtain p where p: "p \<in> set (city_peers city)" "isActive status (ID p)"
    by (auto simp: activeInCity_def)
  from a' obtain q where q: "q \<in> set (city_peers city')" "isActive status (ID q)"
    by (auto simp: activeInCity_def)
  from p(1) have pE: "p \<in> set E" and pb: "inBucket cc k p"
    unfolding grouped_city_peers [OF g c k] by auto
  from q(1) have qE: "q \<in> set E" and qb: "inBucket cc' k' q"
    unfolding grouped_city_peers [OF g c' k'] by auto
  have "ID p = ID q" using p(2) q(2) by (rule isActive_same)
  with ids pE qE have "p = q" by (rule distinct_map_eq)
  with pb qb have keys: "cc' = cc" "k' = k" using inBucket_unique by blast+
  have dcs: "distinct (map fst cs)" using g by (simp add: grouped_def)
  from map_of_is_SomeI [OF dcs c] map_of_is_SomeI [OF dcs c'] keys have cc: "c = c'" by simp
  from g c have "map_of cs cc = Some c" by (simp add: grouped_def)
  with g have "countryOK E cc (Some c)" by (auto simp: grouped_def dest: spec [of _ cc])
  then have dk: "distinct (map fst (country_cities c))" unfolding countryOK_def by auto
  from k' cc have k'': "(k', city') \<in> set (country_cities c)" by simp
  from map_of_is_SomeI [OF dk k] map_of_is_SomeI [OF dk k''] keys have "city = city'" by simp
  with cc show ?thesis by simp
qed

lemma cityItem_eq:
  "city_best city = Some b \<Longrightarrow>
   cityItem status city =
     MenuItem (city_name city) [] True (activeInCity status city) False False
       (Some (SendExitNode (ID b))) []"
  by (simp add: cityItem_def checkIf_def onClick_def AddSubMenuItemCheckbox_def)

lemma checked_cityItem:
  "city_best city \<noteq> None \<Longrightarrow> checked (cityItem status city) = activeInCity status city"
  by (auto simp: cityItem_eq)

lemma cityItem_leaf:
  "city_best city \<noteq> None \<Longrightarrow> checkedPath (cityItem status city) \<and>
     (\<not> activeInCity status city \<longrightarrow> nothingChecked (cityItem status city))"
  by (auto simp: cityItem_eq)

lemma filter_checked_cityItems:
  assumes "\<forall>city\<in>set cities. city_best city \<noteq> None"
  shows "length (filter checked (map (cityItem status) cities)) =
         length (filter (activeInCity status) cities)"
proof -
  have "filter (checked \<circ> cityItem status) cities = filter (activeInCity status) cities"
    using assms by (intro filter_cong) (auto simp: checked_cityItem)
  then show ?thesis by (simp add: filter_map)
qed

lemma countryItem_path:
  assumes g: "grouped E cs" and ids: "distinct (map ID E)" and c: "(cc, c) \<in> set cs"
  shows "checkedPath (countryItem status c)"
    and "checked (countryItem status c) = activeInCountry status c"
    and "\<not> activeInCountry status c \<Longrightarrow> nothingChecked (countryItem status c)"
proof -
  have wf: "wellFormed c" by (rule grouped_country_facts(1) [OF g c])
  then obtain b where b: "country_best c = Some b" by (auto simp: wellFormed_def)
  let ?sc = "sortedCities c"
  have set_sc: "set ?sc = snd ` set (country_cities c)" by (simp add: sortedCities_def)
  have bests: "\<forall>city\<in>set ?sc. city_best city \<noteq> None"
    using wf by (auto simp: wellFormed_def set_sc)
  have dist: "distinct ?sc"
    using grouped_distinct_cities [OF g c] by (simp add: sortedCities_def)
  have uniq: "\<And>x y. x \<in> set ?sc \<Longrightarrow> y \<in> set ?sc \<Longrightarrow>
      activeInCity status x \<Longrightarrow> activeInCity status y \<Longrightarrow> x = y"
  proof -
    fix x y assume "x \<in> set ?sc" "y \<in> set ?sc" and ax: "activeInCity status x"
      and ay: "activeInCity status y"
    then obtain k k' where "(k, x) \<in> set (country_cities c)" "(k', y) \<in> set (country_cities c)"
      by (auto simp: set_sc)
    from active_city_unique [OF g ids c c this ax ay] show "x = y" by simp
  qed
  have act: "activeInCountry status c = (\<exists>city\<in>set ?sc. activeInCity status city)"
    by (simp add: activeInCountry_sorted)
  let ?bm = "onClick (AddSubMenuItemCheckbox ''Best Available'' [] False) (ID b)"
  have bm: "\<not> checked ?bm" "checkedPath ?bm" "nothingChecked ?bm"
    by (simp_all add: onClick_def AddSubMenuItemCheckbox_def)
  show chk: "checked (countryItem status c) = activeInCountry status c"
    by (simp add: countryItem_def b)
  show "checkedPath (countryItem status c)"
  proof (cases "length (country_cities c) = 1")
    case True
    then show ?thesis by (simp add: countryItem_def b)
  next
    case False
    have one: "activeInCountry status c \<Longrightarrow>
        length (filter checked (map (cityItem status) ?sc)) = 1"
      unfolding filter_checked_cityItems [OF bests]
      using dist uniq by (intro filter_eq1) (auto simp: act)
    have leaf: "\<forall>x\<in>set (map (cityItem status) ?sc). checkedPath x"
      using bests cityItem_leaf by auto
    have none: "\<not> activeInCountry status c \<Longrightarrow>
        \<forall>x\<in>set (map (cityItem status) ?sc). nothingChecked x"
      using bests cityItem_leaf by (auto simp: act)
    show ?thesis
      using False one leaf none bm by (simp add: countryItem_def b)
  qed
  show "nothingChecked (countryItem status c)" if na: "\<not> activeInCountry status c"
  proof -
    have none: "\<forall>x\<in>set (map (cityItem status) ?sc). nothingChecked x"
      using bests cityItem_leaf na by (auto simp: act)
    show ?thesis using na none bm by (simp add: countryItem_def b)
  qed
qed

lemma mullvadItem_path:
  assumes g: "grouped E (countries mp)" and ids: "distinct (map ID E)"
  shows "checkedPath
           (MenuItem ''Mullvad VPN'' [] True
              (\<exists>c\<in>set (sortedCountries mp). activeInCountry status c) False False None
              (map (countryItem status) (sortedCountries mp)))"
proof -
  let ?sc = "sortedCountries mp"
  have mem: "\<And>c. c \<in> set ?sc \<Longrightarrow> \<exists>cc. (cc, c) \<in> set (countries mp)"
    by (auto simp: sortedCountries_def)
  have dist: "distinct ?sc"
    using grouped_distinct_countries [OF g] by (simp add: sortedCountries_def)
  have chk: "\<And>c. c \<in> set ?sc \<Longrightarrow> checked (countryItem status c) = activeInCountry status c"
    using mem countryItem_path(2) [OF g ids] by blast
  have path: "\<forall>x\<in>set (map (countryItem status) ?sc). checkedPath x"
    using mem countryItem_path(1) [OF g ids] by auto
  have none: "\<not> (\<exists>c\<in>set ?sc. activeInCountry status c) \<Longrightarrow>
        \<forall>x\<in>set (map (countryItem status) ?sc). nothingChecked x"
    using mem countryItem_path(3) [OF g ids] by (metis (no_types, lifting) imageE list.set_map)
  have uniq: "\<And>x y. x \<in> set ?sc \<Longrightarrow> y \<in> set ?sc \<Longrightarrow>
      activeInCountry status x \<Longrightarrow> activeInCountry status y \<Longrightarrow> x = y"
  proof -
    fix x y assume x: "x \<in> set ?sc" and y: "y \<in> set ?sc" and ax: "activeInCountry status x"
      and ay: "activeInCountry status y"
    from mem [OF x] obtain cc where cx: "(cc, x) \<in> set (countries mp)" by blast
    from mem [OF y] obtain cc' where cy: "(cc', y) \<in> set (countries mp)" by blast
    from ax obtain k city where k: "(k, city) \<in> set (country_cities x)"
      "activeInCity status city" by (auto simp: activeInCountry_def)
    from ay obtain k' city' where k': "(k', city') \<in> set (country_cities y)"
      "activeInCity status city'" by (auto simp: activeInCountry_def)
    from active_city_unique [OF g ids cx cy k(1) k'(1) k(2) k'(2)] show "x = y" by simp
  qed
  have "filter (checked \<circ> countryItem status) ?sc = filter (activeInCountry status) ?sc"
    using chk by (intro filter_cong) auto
  then have len: "length (filter checked (map (countryItem status) ?sc)) =
      length (filter (activeInCountry status) ?sc)"
    by (simp add: filter_map)
  have one: "(\<exists>c\<in>set ?sc. activeInCountry status c) \<Longrightarrow>
      length (filter checked (map (countryItem status) ?sc)) = 1"
    unfolding len using dist uniq by (intro filter_eq1) auto
  show ?thesis using one path none by simp
qed

lemma leaf_path: "children x = [] \<Longrightarrow> checkedPath x \<and> (\<not> checked x \<longrightarrow> nothingChecked x)"
  by (cases x) auto

lemma rendersPeer_leaf: "rendersPeer status p x \<Longrightarrow> children x = []"
  by (simp add: rendersPeer_def)

lemma rendersPeer_checked: "rendersPeer status p x \<Longrightarrow> checked x = isActive status (ID p)"
  by (cases "ExitNodeStatus status") (auto simp: rendersPeer_def isActive_def)

lemma list_all2_filter_length:
  "list_all2 R xs ys \<Longrightarrow> (\<And>x y. R x y \<Longrightarrow> P x = Q y) \<Longrightarrow>
   length (filter P xs) = length (filter Q ys)"
  by (induction rule: list_all2_induct) auto

lemma tailnet_loop_checked:
  "length (filter checked (tailnet_loop status (Peer status))) =
   length (filter (\<lambda>p. isActive status (ID p)) (tailnetPeers status))"
  unfolding tailnetPeers_def
  by (rule list_all2_filter_length [OF tailnet_loop_renders, symmetric])
    (simp add: rendersPeer_checked)

lemma tailnet_loop_leaves:
  "\<forall>x\<in>set (tailnet_loop status (Peer status)). children x = []"
proof -
  have "list_all2 (rendersPeer status) (tailnetPeers status) (tailnet_loop status (Peer status))"
    unfolding tailnetPeers_def by (rule tailnet_loop_renders)
  then show ?thesis
    by (metis in_set_conv_nth list_all2_conv_all_nth rendersPeer_leaf)
qed

lemma tailnet_eq:
  "tailnet status =
     (if tailnetPeers status = [] then []
      else Separator # Disable (AddSubMenuItem ''Tailnet Exit Nodes'' []) #
           tailnet_loop status (Peer status))"
  by (simp add: tailnet_def tailnetPeers_def Let_def)

lemma tailnet_leaves: "\<forall>x\<in>set (tailnet status). children x = []"
  using tailnet_loop_leaves [of status] by (auto simp: tailnet_eq AddSubMenuItem_def)

lemma tailnet_checked:
  "length (filter checked (tailnet status)) =
   length (filter (\<lambda>p. isActive status (ID p)) (tailnetPeers status))"
proof (cases "tailnetPeers status = []")
  case True
  then show ?thesis by (simp add: tailnet_eq)
next
  case False
  then show ?thesis by (simp add: tailnet_eq AddSubMenuItem_def tailnet_loop_checked)
qed

lemma tailnet_active_le1:
  assumes ids: "distinct (map ID (Peer status))"
  shows "length (filter (\<lambda>p. isActive status (ID p)) (tailnetPeers status)) \<le> 1"
proof (rule filter_le1)
  show "distinct (tailnetPeers status)"
    using ids by (auto simp: tailnetPeers_def distinct_map)
next
  fix x y assume "x \<in> set (tailnetPeers status)" "y \<in> set (tailnetPeers status)"
    "isActive status (ID x)" "isActive status (ID y)"
  then have "x \<in> set (Peer status)" "y \<in> set (Peer status)" "ID x = ID y"
    by (auto simp: tailnetPeers_def dest: isActive_same)
  with ids show "x = y" by (rule distinct_map_eq)
qed

lemma active_country_peer:
  assumes g: "grouped E (countries mp)" and c: "c \<in> set (sortedCountries mp)"
    and a: "activeInCountry status c"
  shows "\<exists>q\<in>set E. Location q \<noteq> None \<and> isActive status (ID q)"
proof -
  from c obtain cc where cc: "(cc, c) \<in> set (countries mp)"
    by (auto simp: sortedCountries_def)
  from a obtain k city where k: "(k, city) \<in> set (country_cities c)"
    and ac: "activeInCity status city" by (auto simp: activeInCountry_def)
  from ac obtain q where q: "q \<in> set (city_peers city)" "isActive status (ID q)"
    by (auto simp: activeInCity_def)
  from q(1) have "q \<in> set E" "inBucket cc k q"
    unfolding grouped_city_peers [OF g cc k] by auto
  with q(2) inBucket_qualifies [of cc k q] show ?thesis by blast
qed

lemma isActive_None: "ExitNodeStatus status = None \<Longrightarrow> \<not> isActive status i"
  by (simp add: isActive_def)

lemma recommended_failed: "recommended attr (sugg, Some e) status self = []"
  by (simp add: recommended_def)

lemma recommended_nocap:
  "attr \<notin> set (CapMap self) \<Longrightarrow> recommended attr suggestion status self = []"
  by (simp add: recommended_def)

lemma recommended_entry:
  "attr \<in> set (CapMap self) \<Longrightarrow>
   \<exists>t. recommended attr (sugg, None) status self =
     [Separator, MenuItem t [] True (isActive status (Sugg_ID sugg)) False False
                   (Some (SendExitNode (Sugg_ID sugg))) []]"
  unfolding recommended_def Let_def onClick_def AddSubMenuItemCheckbox_def
  by (cases "isActive status (Sugg_ID sugg)") simp_all

lemma recommended_items:
  "\<forall>x\<in>set (recommended attr suggestion status self).
     children x = [] \<and> (checked x \<longrightarrow> isActive status (Sugg_ID (fst suggestion)))"
proof (cases suggestion)
  case (Pair sugg e)
  show ?thesis
  proof (cases "attr \<in> set (CapMap self)")
    case False
    then show ?thesis by (simp add: recommended_nocap)
  next
    case True
    show ?thesis
    proof (cases e)
      case None
      from recommended_entry [OF True, of sugg status] obtain t where
        "recommended attr (sugg, None) status self =
           [Separator, MenuItem t [] True (isActive status (Sugg_ID sugg)) False False
                   (Some (SendExitNode (Sugg_ID sugg))) []]" by blast
      then show ?thesis by (simp add: Pair None)
    next
      case (Some a)
      then show ?thesis by (simp add: Pair recommended_failed)
    qed
  qed
qed

lemma active_peer_country:
  assumes g: "grouped E (countries mp)" and p: "p \<in> set E" "ExitNodeOption p"
    "Location p \<noteq> None" "isActive status (ID p)"
  shows "\<exists>c\<in>set (sortedCountries mp). activeInCountry status c"
proof -
  from p(3) obtain loc where loc: "Location p = Some loc" by auto
  let ?cc = "CountryCode loc" and ?k = "CityCode loc"
  have "p \<in> set (filter (inBucket ?cc ?k) E)"
    using p(1,2) loc by (simp add: inBucket_def)
  then have mem: "p \<in> set (peersAt mp ?cc ?k)"
    unfolding grouped_peersAt [OF g] .
  then obtain city where ca: "cityAt mp ?cc ?k = Some city" and pc: "p \<in> set (city_peers city)"
    by (cases "cityAt mp ?cc ?k") (auto simp: peersAt_def)
  then obtain c where c: "map_of (countries mp) ?cc = Some c"
    and city: "map_of (country_cities c) ?k = Some city"
    by (cases "map_of (countries mp) ?cc") (auto simp: cityAt_def)
  from city have "(?k, city) \<in> set (country_cities c)" by (rule map_of_SomeD)
  with pc p(4) have "activeInCountry status c"
    by (force simp: activeInCountry_def activeInCity_def)
  moreover from c have "c \<in> set (sortedCountries mp)"
    by (force simp: sortedCountries_def dest: map_of_SomeD)
  ultimately show ?thesis by blast
qed

lemma locatedActive_iff:
  assumes g: "grouped (Peer status) (countries mp)"
  shows "(\<exists>c\<in>set (sortedCountries mp). activeInCountry status c) = locatedActive status"
proof
  assume "\<exists>c\<in>set (sortedCountries mp). activeInCountry status c"
  then obtain c where c: "c \<in> set (sortedCountries mp)" "activeInCountry status c" by blast
  from c(1) obtain cc where cc: "(cc, c) \<in> set (countries mp)"
    by (auto simp: sortedCountries_def)
  from c(2) obtain k city where k: "(k, city) \<in> set (country_cities c)"
    and ac: "activeInCity status city" by (auto simp: activeInCountry_def)
  from ac obtain q where q: "q \<in> set (city_peers city)" "isActive status (ID q)"
    by (auto simp: activeInCity_def)
  from q(1) have "q \<in> set (Peer status)" "inBucket cc k q"
    unfolding grouped_city_peers [OF g cc k] by auto
  with q(2) inBucket_qualifies [of cc k q] show "locatedActive status"
    unfolding locatedActive_def by blast
next
  assume "locatedActive status"
  then obtain p where "p \<in> set (Peer status)" "ExitNodeOption p" "Location p \<noteq> None"
    "isActive status (ID p)" unfolding locatedActive_def by blast
  from active_peer_country [OF g this] show "\<exists>c\<in>set (sortedCountries mp). activeInCountry status c" .
qed

lemma cityItem_marks:
  "city_best city \<noteq> None \<Longrightarrow> marksCity status city (cityItem status city)"
  by (auto simp: marksCity_def cityItem_eq)

lemma countryItem_marks:
  assumes wf: "wellFormed c"
  shows "marksCountry status c (countryItem status c)"
proof -
  from wf obtain b where b: "country_best c = Some b" by (auto simp: wellFormed_def)
  have bests: "\<forall>city\<in>set (sortedCities c). city_best city \<noteq> None"
    using wf by (auto simp: wellFormed_def sortedCities_def)
  have l2: "list_all2 (marksCity status) (sortedCities c)
              (map (cityItem status) (sortedCities c))"
    using bests by (simp add: list_all2_conv_all_nth cityItem_marks)
  show ?thesis
  proof (cases "length (country_cities c) = 1")
    case True
    then show ?thesis by (simp add: marksCountry_def countryItem_def b)
  next
    case False
    then show ?thesis using l2
      by (simp add: marksCountry_def countryItem_def b onClick_def AddSubMenuItemCheckbox_def)
  qed
qed

lemma tailnet_active_eq1:
  assumes ids: "distinct (map ID (Peer status))"
    and ex: "\<exists>p\<in>set (tailnetPeers status). isActive status (ID p)"
  shows "length (filter (\<lambda>p. isActive status (ID p)) (tailnetPeers status)) = 1"
proof -
  have "length (filter (\<lambda>p. isActive status (ID p)) (tailnetPeers status)) \<le> 1"
    by (rule tailnet_active_le1 [OF ids])
  moreover have "filter (\<lambda>p. isActive status (ID p)) (tailnetPeers status) \<noteq> []"
    using ex by (auto simp: filter_empty_conv)
  ultimately show ?thesis
    by (cases "filter (\<lambda>p. isActive status (ID p)) (tailnetPeers status)") auto
qed

lemma listedActive_iff:
  "listedActive status self =
     ((\<exists>p\<in>set (tailnetPeers status). isActive status (ID p)) \<or>
      (''mullvad'' \<in> set (CapMap self) \<and> locatedActive status))"
  unfolding listedActive_def locatedActive_def tailnetPeers_def by auto

lemma recommended_shape:
  "if attr \<in> set (CapMap self) \<and> snd suggestion = None
   then \<exists>rm. recommended attr suggestion status self = [Separator, rm] \<and> children rm = [] \<and>
          (checked rm \<longleftrightarrow> isActive status (Sugg_ID (fst suggestion)))
   else recommended attr suggestion status self = []"
proof (cases suggestion)
  case (Pair sugg e)
  show ?thesis
  proof (cases "attr \<in> set (CapMap self)")
    case False
    then show ?thesis by (simp add: recommended_nocap)
  next
    case True
    show ?thesis
    proof (cases e)
      case None
      from recommended_entry [OF True, of sugg status] obtain t where
        "recommended attr (sugg, None) status self =
           [Separator, MenuItem t [] True (isActive status (Sugg_ID sugg)) False False
                   (Some (SendExitNode (Sugg_ID sugg))) []]" by blast
      then show ?thesis using True by (simp add: Pair None)
    next
      case (Some a)
      then show ?thesis by (simp add: Pair recommended_failed)
    qed
  qed
qed

text \<open>
  Claim C3, as amended. For a status with a non-nil own node whose peers have pairwise
  distinct ids, the exit-node menu is built and consists of the None entry, the Recommended
  section, one entry per eligible peer without location and, when the own node has the
  mullvad capability and there are located eligible peers, the entry "Mullvad VPN" with
  one entry per country. The None entry is checked iff no exit node is set. The entry of
  a tailnet peer is checked iff that peer is the active exit node; "Mullvad VPN", a country
  and a city are checked iff the active exit node is one of their peers. Leaving the
  Recommended entry aside, exactly one top-level entry is checked when no exit node is set
  (the None entry) or when the active exit node is a listed peer, and none otherwise;
  below every entry the check marks form one path down to a leaf. The Recommended entry,
  when shown, is a leaf that is checked iff its target is the active exit node; when that
  peer is listed, its own entry is checked as well.
\<close>

theorem checked_entries_exactly_one_path:
  assumes self: "Self status = Some self" and ids: "distinct (map ID (Peer status))"
  shows "\<exists>mp menu titems mitems others.
     newMullvadPeers status = Inr mp \<and>
     rebuildExitNodeMenu attr suggestion (Some status) = Inr menu \<and>
     children menu = noExitNodeMenu status # recommended attr suggestion status self @ others \<and>
     others =
       (if tailnetPeers status = [] then []
        else Separator # Disable (AddSubMenuItem ''Tailnet Exit Nodes'' []) # titems) @ mitems \<and>
     (checked (noExitNodeMenu status) \<longleftrightarrow> ExitNodeStatus status = None) \<and>
     list_all2 (rendersPeer status) (tailnetPeers status) titems \<and>
     (if ''mullvad'' \<in> set (CapMap self) \<and> countries mp \<noteq> []
      then \<exists>mm. mitems = [Separator, Disable (AddSubMenuItem ''Location-based Exit Nodes'' []), mm] \<and>
             title mm = ''Mullvad VPN'' \<and> (checked mm \<longleftrightarrow> locatedActive status) \<and>
             list_all2 (marksCountry status) (sortedCountries mp) (children mm)
      else mitems = []) \<and>
     length (filter checked (noExitNodeMenu status # others)) =
       (if ExitNodeStatus status = None \<or> listedActive status self then 1 else 0) \<and>
     (\<forall>x\<in>set others. checkedPath x) \<and>
     (if attr \<in> set (CapMap self) \<and> snd suggestion = None
      then \<exists>rm. recommended attr suggestion status self = [Separator, rm] \<and> children rm = [] \<and>
             (checked rm \<longleftrightarrow> isActive status (Sugg_ID (fst suggestion)))
      else recommended attr suggestion status self = []) \<and>
     (isActive status (Sugg_ID (fst suggestion)) \<and> listedActive status self \<longrightarrow>
        length (filter checked others) = 1) \<and>
     (ExitNodeStatus status = None \<longrightarrow>
        (\<forall>x\<in>set (recommended attr suggestion status self) \<union> set others. nothingChecked x))"
proof -
  from newMullvadPeers_grouped [of status] obtain mp where
    mp: "newMullvadPeers status = Inr mp" and g: "grouped (Peer status) (countries mp)"
    by blast
  let ?H = "\<exists>c\<in>set (sortedCountries mp). activeInCountry status c"
  let ?mm = "MenuItem ''Mullvad VPN'' [] True ?H False False None
                  (map (countryItem status) (sortedCountries mp))"
  let ?cap = "''mullvad'' \<in> set (CapMap self) \<and> countries mp \<noteq> []"
  define mitems where "mitems =
     (if ?cap
      then [Separator, Disable (AddSubMenuItem ''Location-based Exit Nodes'' []), ?mm] else [])"
  have m: "mullvad status self = Inr mitems"
  proof (cases "''mullvad'' \<in> set (CapMap self)")
    case True
    then show ?thesis using mullvad_eq [OF True mp] by (simp add: mitems_def)
  next
    case False
    then show ?thesis by (simp add: mullvad_nocap mitems_def)
  qed
  let ?titems = "tailnet_loop status (Peer status)"
  define others where "others = tailnet status @ mitems"
  define menu where "menu = MenuItem ''Exit Nodes'' [] False False False False None
            (noExitNodeMenu status # recommended attr suggestion status self @ others)"
  have r: "rebuildExitNodeMenu attr suggestion (Some status) = Inr menu"
    unfolding menu_def others_def by (rule rebuildExitNodeMenu_eq [OF self m])
  have ch: "children menu =
      noExitNodeMenu status # recommended attr suggestion status self @ others"
    by (simp add: menu_def)
  have oth: "others =
       (if tailnetPeers status = [] then []
        else Separator # Disable (AddSubMenuItem ''Tailnet Exit Nodes'' []) # ?titems) @ mitems"
    by (simp add: others_def tailnet_eq)
  have none: "checked (noExitNodeMenu status) \<longleftrightarrow> ExitNodeStatus status = None"
    by (simp add: noExitNodeMenu_def onClick_def AddSubMenuItemCheckbox_def)
  have tl: "list_all2 (rendersPeer status) (tailnetPeers status) ?titems"
    unfolding tailnetPeers_def by (rule tailnet_loop_renders)
  have H: "?H = locatedActive status" by (rule locatedActive_iff [OF g])
  have wf: "\<forall>c\<in>set (sortedCountries mp). wellFormed c"
    using newMullvadPeers_sorted_facts(1) [OF mp] by blast
  have marks: "list_all2 (marksCountry status) (sortedCountries mp) (children ?mm)"
    using wf by (simp add: list_all2_conv_all_nth countryItem_marks)
  have shape: "if ?cap
      then \<exists>mm. mitems = [Separator, Disable (AddSubMenuItem ''Location-based Exit Nodes'' []), mm] \<and>
             title mm = ''Mullvad VPN'' \<and> (checked mm \<longleftrightarrow> locatedActive status) \<and>
             list_all2 (marksCountry status) (sortedCountries mp) (children mm)
      else mitems = []"
  proof (cases ?cap)
    case True
    have "mitems = [Separator, Disable (AddSubMenuItem ''Location-based Exit Nodes'' []), ?mm]"
      using True by (simp add: mitems_def)
    moreover have "title ?mm = ''Mullvad VPN''" by simp
    moreover have "checked ?mm \<longleftrightarrow> locatedActive status" using H by simp
    ultimately have "\<exists>mm. mitems = [Separator, Disable (AddSubMenuItem ''Location-based Exit Nodes'' []), mm] \<and>
             title mm = ''Mullvad VPN'' \<and> (checked mm \<longleftrightarrow> locatedActive status) \<and>
             list_all2 (marksCountry status) (sortedCountries mp) (children mm)"
      using marks by blast
    with True show ?thesis by simp
  next
    case False
    then show ?thesis by (simp add: mitems_def)
  qed
  have mm_path: "checkedPath ?mm" by (rule mullvadItem_path [OF g ids])
  have paths: "\<forall>x\<in>set others. checkedPath x"
    using tailnet_leaves [of status] leaf_path mm_path
    by (auto simp: others_def mitems_def AddSubMenuItem_def)
  have H_cap: "countries mp \<noteq> []" if "?H"
    using that by (auto simp: sortedCountries_def)
  have mcount: "length (filter checked mitems) =
      (if ''mullvad'' \<in> set (CapMap self) \<and> locatedActive status then 1 else 0)"
    using H H_cap by (auto simp: mitems_def AddSubMenuItem_def)
  let ?t = "length (filter (\<lambda>p. isActive status (ID p)) (tailnetPeers status))"
  have t_le: "?t \<le> 1" by (rule tailnet_active_le1 [OF ids])
  have t1: "?t = 1" if "\<exists>p\<in>set (tailnetPeers status). isActive status (ID p)"
    using that by (rule tailnet_active_eq1 [OF ids])
  have t0': "?t = 0" if "\<not> (\<exists>p\<in>set (tailnetPeers status). isActive status (ID p))"
    using that by (auto simp: filter_empty_conv)
  have t0: "?t = 0" if h: "locatedActive status"
  proof -
    from h obtain q where
      q: "q \<in> set (Peer status)" "Location q \<noteq> None" "isActive status (ID q)"
      unfolding locatedActive_def by blast
    have "filter (\<lambda>p. isActive status (ID p)) (tailnetPeers status) = []"
    proof (rule ccontr)
      assume "filter (\<lambda>p. isActive status (ID p)) (tailnetPeers status) \<noteq> []"
      then obtain p where p: "p \<in> set (Peer status)" "Location p = None"
          "isActive status (ID p)"
        by (auto simp: filter_empty_conv tailnetPeers_def)
      from p(3) q(3) have "ID p = ID q" by (rule isActive_same)
      with ids p(1) q(1) have "p = q" by (rule distinct_map_eq)
      with p(2) q(2) show False by simp
    qed
    then show ?thesis by simp
  qed
  have la_none: "\<not> listedActive status self" if "ExitNodeStatus status = None"
    using that by (simp add: listedActive_def isActive_None)
  have ocount: "length (filter checked others) = (if listedActive status self then 1 else 0)"
  proof (cases "\<exists>p\<in>set (tailnetPeers status). isActive status (ID p)")
    case True
    then have la: "listedActive status self" by (simp add: listedActive_iff)
    have "\<not> locatedActive status" using t0 t1 [OF True] by auto
    with la t1 [OF True] show ?thesis
      by (simp add: others_def tailnet_checked mcount)
  next
    case False
    with t0' [OF False] show ?thesis
      by (simp add: others_def tailnet_checked mcount listedActive_iff)
  qed
  have count: "length (filter checked (noExitNodeMenu status # others)) =
       (if ExitNodeStatus status = None \<or> listedActive status self then 1 else 0)"
    using none ocount la_none by (cases "ExitNodeStatus status = None") auto
  have both: "isActive status (Sugg_ID (fst suggestion)) \<and> listedActive status self \<longrightarrow>
        length (filter checked others) = 1"
    using ocount by simp
  have rec: "if attr \<in> set (CapMap self) \<and> snd suggestion = None
      then \<exists>rm. recommended attr suggestion status self = [Separator, rm] \<and> children rm = [] \<and>
             (checked rm \<longleftrightarrow> isActive status (Sugg_ID (fst suggestion)))
      else recommended attr suggestion status self = []"
    by (rule recommended_shape)
  have quiet: "ExitNodeStatus status = None \<longrightarrow>
        (\<forall>x\<in>set (recommended attr suggestion status self) \<union> set others. nothingChecked x)"
  proof (intro impI ballI)
    fix x assume n: "ExitNodeStatus status = None"
      and x: "x \<in> set (recommended attr suggestion status self) \<union> set others"
    from ocount la_none [OF n] have "filter checked others = []" by simp
    then have un: "\<forall>y\<in>set others. \<not> checked y" by (auto simp: filter_empty_conv)
    from x consider "x \<in> set (recommended attr suggestion status self)"
      | "x \<in> set others" by auto
    then show "nothingChecked x"
    proof cases
      case 1
      with recommended_items [of attr suggestion status self] n leaf_path [of x]
      show ?thesis by (auto simp: isActive_None)
    next
      case 2
      with un paths have "\<not> checked x" "checkedPath x" by auto
      then show ?thesis by (cases x) auto
    qed
  qed
  from mp r ch oth none tl shape count paths rec both quiet
  have "newMullvadPeers status = Inr mp \<and>
     rebuildExitNodeMenu attr suggestion (Some status) = Inr menu \<and>
     children menu = noExitNodeMenu status # recommended attr suggestion status self @ others \<and>
     others =
       (if tailnetPeers status = [] then []
        else Separator # Disable (AddSubMenuItem ''Tailnet Exit Nodes'' []) # ?titems) @ mitems \<and>
     (checked (noExitNodeMenu status) \<longleftrightarrow> ExitNodeStatus status = None) \<and>
     list_all2 (rendersPeer status) (tailnetPeers status) ?titems \<and>
     (if ''mullvad'' \<in> set (CapMap self) \<and> countries mp \<noteq> []
      then \<exists>mm. mitems = [Separator, Disable (AddSubMenuItem ''Location-based Exit Nodes'' []), mm] \<and>
             title mm = ''Mullvad VPN'' \<and> (checked mm \<longleftrightarrow> locatedActive status) \<and>
             list_all2 (marksCountry status) (sortedCountries mp) (children mm)
      else mitems = []) \<and>
     length (filter checked (noExitNodeMenu status # others)) =
       (if ExitNodeStatus status = None \<or> listedActive status self then 1 else 0) \<and>
     (\<forall>x\<in>set others. checkedPath x) \<and>
     (if attr \<in> set (CapMap self) \<and> snd suggestion = None
      then \<exists>rm. recommended attr suggestion status self = [Separator, rm] \<and> children rm = [] \<and>
             (checked rm \<longleftrightarrow> isActive status (Sugg_ID (fst suggestion)))
      else recommended attr suggestion status self = []) \<and>
     (isActive status (Sugg_ID (fst suggestion)) \<and> listedActive status self \<longrightarrow>
        length (filter checked others) = 1) \<and>
     (ExitNodeStatus status = None \<longrightarrow>
        (\<forall>x\<in>set (recommended attr suggestion status self) \<union> set others. nothingChecked x))"
    by (intro conjI)
  then show ?thesis by (intro exI)
qed

lemmas menu_defs = mullvad_def newMullvadPeers_def newMullvadPeers_body_def higherPriority_def
  sortedCountries_def sortedCities_def AddSubMenuItemCheckbox_def AddSubMenuItem_def onClick_def
  noExitNodeMenu_def recommended_def tailnet_def isActive_def firstLabel_def
  rebuildExitNodeMenu_def

lemma rebuildExitNodeMenu_example:
  "rebuildExitNodeMenu exampleAttr exampleSuggestion (Some exampleStatus) = Inr exampleMenu"
  by (simp add: menu_defs example_defs exampleOthers_def exampleMenu_def exampleAttr_def
      exampleSuggestion_def)

lemma example_ids: "distinct (map ID (Peer exampleStatus))"
  by (simp add: example_defs)

lemma rebuildExitNodeMenu_unlisted:
  "rebuildExitNodeMenu exampleAttr exampleSuggestion (Some exampleUnlisted) =
     Inr exampleUnlistedMenu"
  by (simp add: menu_defs example_defs exampleUnlisted_def exampleUnlistedMenu_def
      exampleAttr_def exampleSuggestion_def)

text \<open>
  Claim C3 as stated fails in two ways. When the suggested exit node is the active one,
  the Recommended entry and its sibling "Mullvad VPN" are both checked. When the active
  exit node is a peer that the menu does not list (here a peer that is no exit-node
  option), no entry is checked at all.
\<close>

theorem checked_entries_counterexample:
  "Self exampleStatus = Some exampleSelf \<and> distinct (map ID (Peer exampleStatus)) \<and>
   rebuildExitNodeMenu exampleAttr exampleSuggestion (Some exampleStatus) = Inr exampleMenu \<and>
   checked (children exampleMenu ! 2) \<and> checked (children exampleMenu ! 8) \<and>
   title (children exampleMenu ! 8) = ''Mullvad VPN'' \<and>
   \<not> siblingsExclusive exampleMenu \<and>
   Self exampleUnlisted = Some exampleSelf \<and> distinct (map ID (Peer exampleUnlisted)) \<and>
   ExitNodeStatus exampleUnlisted = Some \<lparr>ExitNode_ID = ''nLAP''\<rparr> \<and>
   rebuildExitNodeMenu exampleAttr exampleSuggestion (Some exampleUnlisted) =
     Inr exampleUnlistedMenu \<and>
   nothingChecked exampleUnlistedMenu"
  using rebuildExitNodeMenu_example rebuildExitNodeMenu_unlisted example_ids
  by (simp add: exampleMenu_def exampleOthers_def exampleStatus_def exampleUnlisted_def
      exampleUnlistedMenu_def)

theorem checked_entries_exactly_one_path_witness:
  "Self exampleStatus = Some exampleSelf \<and> distinct (map ID (Peer exampleStatus)) \<and>
   ExitNodeStatus exampleStatus \<noteq> None \<and> listedActive exampleStatus exampleSelf \<and>
   isActive exampleStatus (Sugg_ID (fst exampleSuggestion)) \<and>
   rebuildExitNodeMenu exampleAttr exampleSuggestion (Some exampleStatus) = Inr exampleMenu \<and>
   children exampleMenu =
     noExitNodeMenu exampleStatus #
     recommended exampleAttr exampleSuggestion exampleStatus exampleSelf @ exampleOthers \<and>
   \<not> checked (noExitNodeMenu exampleStatus) \<and>
   length (filter checked (noExitNodeMenu exampleStatus # exampleOthers)) = 1 \<and>
   length (filter checked exampleOthers) = 1 \<and>
   list_all checkedPath exampleOthers \<and>
   Self exampleIdle = Some exampleSelf \<and> distinct (map ID (Peer exampleIdle)) \<and>
   ExitNodeStatus exampleIdle = None \<and>
   (\<exists>menu others.
      rebuildExitNodeMenu exampleAttr exampleSuggestion (Some exampleIdle) = Inr menu \<and>
      children menu =
        noExitNodeMenu exampleIdle #
        recommended exampleAttr exampleSuggestion exampleIdle exampleSelf @ others \<and>
      checked (noExitNodeMenu exampleIdle) \<and>
      length (filter checked (noExitNodeMenu exampleIdle # others)) = 1 \<and>
      list_all nothingChecked others)"
proof -
  have self: "Self exampleStatus = Some exampleSelf" by (simp add: exampleStatus_def)
  have self': "Self exampleIdle = Some exampleSelf"
    by (simp add: exampleIdle_def exampleStatus_def)
  have ids': "distinct (map ID (Peer exampleIdle))"
    using example_ids by (simp add: exampleIdle_def)
  have es: "ExitNodeStatus exampleStatus \<noteq> None" by (simp add: exampleStatus_def)
  have idle: "ExitNodeStatus exampleIdle = None" by (simp add: exampleIdle_def)
  have la: "listedActive exampleStatus exampleSelf"
    by (simp add: listedActive_def isActive_def example_defs)
  have sa: "isActive exampleStatus (Sugg_ID (fst exampleSuggestion))"
    by (simp add: isActive_def exampleSuggestion_def exampleStatus_def)
  have ch: "children exampleMenu =
     noExitNodeMenu exampleStatus #
     recommended exampleAttr exampleSuggestion exampleStatus exampleSelf @ exampleOthers"
    by (simp add: exampleMenu_def menu_defs example_defs exampleAttr_def exampleSuggestion_def)
  from checked_entries_exactly_one_path [OF self example_ids, of exampleAttr exampleSuggestion]
  obtain menu others where
    r: "rebuildExitNodeMenu exampleAttr exampleSuggestion (Some exampleStatus) = Inr menu"
    and c: "children menu = noExitNodeMenu exampleStatus #
              recommended exampleAttr exampleSuggestion exampleStatus exampleSelf @ others"
    and n: "checked (noExitNodeMenu exampleStatus) \<longleftrightarrow> ExitNodeStatus exampleStatus = None"
    and cnt: "length (filter checked (noExitNodeMenu exampleStatus # others)) =
       (if ExitNodeStatus exampleStatus = None \<or> listedActive exampleStatus exampleSelf
        then 1 else 0)"
    and paths: "\<forall>x\<in>set others. checkedPath x"
    and both: "isActive exampleStatus (Sugg_ID (fst exampleSuggestion)) \<and>
        listedActive exampleStatus exampleSelf \<longrightarrow> length (filter checked others) = 1"
    by (elim exE conjE)
  from r rebuildExitNodeMenu_example have "menu = exampleMenu" by simp
  with c ch have o: "others = exampleOthers" by simp
  from cnt la have cnt1: "length (filter checked (noExitNodeMenu exampleStatus # others)) = 1"
    by simp
  from both sa la have both1: "length (filter checked others) = 1" by simp
  from checked_entries_exactly_one_path [OF self' ids', of exampleAttr exampleSuggestion]
  obtain menu' others' where
    r': "rebuildExitNodeMenu exampleAttr exampleSuggestion (Some exampleIdle) = Inr menu'"
    and c': "children menu' = noExitNodeMenu exampleIdle #
              recommended exampleAttr exampleSuggestion exampleIdle exampleSelf @ others'"
    and n': "checked (noExitNodeMenu exampleIdle) \<longleftrightarrow> ExitNodeStatus exampleIdle = None"
    and cnt': "length (filter checked (noExitNodeMenu exampleIdle # others')) =
       (if ExitNodeStatus exampleIdle = None \<or> listedActive exampleIdle exampleSelf
        then 1 else 0)"
    and q': "ExitNodeStatus exampleIdle = None \<longrightarrow>
        (\<forall>x\<in>set (recommended exampleAttr exampleSuggestion exampleIdle exampleSelf) \<union>
              set others'. nothingChecked x)"
    by (elim exE conjE)
  from q' idle have "\<forall>x\<in>set others'. nothingChecked x" by simp
  moreover from cnt' idle have
    "length (filter checked (noExitNodeMenu exampleIdle # others')) = 1" by simp
  ultimately have
    "\<exists>menu others.
      rebuildExitNodeMenu exampleAttr exampleSuggestion (Some exampleIdle) = Inr menu \<and>
      children menu =
        noExitNodeMenu exampleIdle #
        recommended exampleAttr exampleSuggestion exampleIdle exampleSelf @ others \<and>
      checked (noExitNodeMenu exampleIdle) \<and>
      length (filter checked (noExitNodeMenu exampleIdle # others)) = 1 \<and>
      list_all nothingChecked others"
    using r' c' n' idle unfolding list_all_iff by blast
  with self example_ids es la sa rebuildExitNodeMenu_example ch n cnt1 both1 paths self' ids' idle
  show ?thesis unfolding o list_all_iff by simp
qed

subsection \<open>The rebuild of the tray menu\<close>

lemma logIfError_commands: "filter isCommand (logIfError msg r) = []"
  by (cases r) (simp_all add: logIfError_def)

lemma fetchState_calls:
  "filter isCommand (fst (fetchState d)) = [] \<and> count_list (fst (fetchState d)) ClientStatus = 1 \<and>
   count_list (fst (fetchState d)) SystrayResetMenu = 0"
proof -
  obtain status e where s: "StatusResult d = (status, e)" by (cases "StatusResult d")
  obtain cur al e' where p: "ProfileStatusResult d = (cur, al, e')"
    by (cases "ProfileStatusResult d") auto
  show ?thesis
    by (cases e; cases e') (simp_all add: fetchState_def s p logIfError_def)
qed

lemma rebuild_calls_shape:
  "\<exists>s t. fst (rebuild attr d menu st) =
     (if menu_eventCancel menu then [EventCancel] else []) @ [SystrayResetMenu] @
     (if s then [ClientSuggestExitNode] else []) @ (if t then [StartEventLoop] else [])"
proof (cases "selfItem st")
  case (Inl e)
  then have "fst (rebuild attr d menu st) =
     (if menu_eventCancel menu then [EventCancel] else []) @ [SystrayResetMenu] @
     (if False then [ClientSuggestExitNode] else []) @ (if False then [StartEventLoop] else [])"
    by (simp add: rebuild_def Let_def)
  then show ?thesis by blast
next
  case (Inr added)
  show ?thesis
  proof (cases "rebuildExitNodeMenu attr (SuggestExitNodeResult d) (state_status st)")
    case (Inl e)
    with Inr have "\<exists>s. fst (rebuild attr d menu st) =
     (if menu_eventCancel menu then [EventCancel] else []) @ [SystrayResetMenu] @
     (if s then [ClientSuggestExitNode] else []) @ (if False then [StartEventLoop] else [])"
      by (cases added) (auto simp: rebuild_def Let_def)
    then show ?thesis by blast
  next
    case (Inr exitNodes)
    with \<open>selfItem st = Inr added\<close> have "\<exists>s. fst (rebuild attr d menu st) =
     (if menu_eventCancel menu then [EventCancel] else []) @ [SystrayResetMenu] @
     (if s then [ClientSuggestExitNode] else []) @ (if True then [StartEventLoop] else [])"
      by (cases added) (auto simp: rebuild_def Let_def)
    then show ?thesis by blast
  qed
qed

lemma rebuild_calls:
  "filter isCommand (fst (rebuild attr d menu st)) = [] \<and>
   count_list (fst (rebuild attr d menu st)) SystrayResetMenu = 1 \<and>
   count_list (fst (rebuild attr d menu st)) ClientStatus = 0"
proof -
  from rebuild_calls_shape [of attr d menu st] obtain s t where
    "fst (rebuild attr d menu st) =
     (if menu_eventCancel menu then [EventCancel] else []) @ [SystrayResetMenu] @
     (if s then [ClientSuggestExitNode] else []) @ (if t then [StartEventLoop] else [])"
    by blast
  then show ?thesis by simp
qed

lemma rebuildFetched_calls:
  "filter isCommand (fst (rebuildFetched attr d menu)) = [] \<and>
   count_list (fst (rebuildFetched attr d menu)) SystrayResetMenu = 1 \<and>
   count_list (fst (rebuildFetched attr d menu)) ClientStatus = 1"
proof -
  obtain fc st where f: "fetchState d = (fc, st)" by (cases "fetchState d")
  obtain rc res where r: "rebuild attr d menu st = (rc, res)" by (cases "rebuild attr d menu st")
  from fetchState_calls [of d] f have 1: "filter isCommand fc = []"
    "count_list fc ClientStatus = 1" "count_list fc SystrayResetMenu = 0" by simp_all
  from rebuild_calls [of attr d menu st] r have 2: "filter isCommand rc = []"
    "count_list rc SystrayResetMenu = 1" "count_list rc ClientStatus = 0" by simp_all
  show ?thesis using 1 2 by (simp add: rebuildFetched_def f r)
qed



text \<open>
  Claim C8. When the request for the status fails, the daemon's answer has a nil status
  and an error. \<open>fetchState\<close> logs the error and returns the nil status, and \<open>rebuild\<close> omits
  the entry of this device. The rebuild does not complete, though: after the tray has been
  reset, \<open>rebuildExitNodeMenu\<close> reads \<open>status.ExitNodeStatus\<close> through the nil status and
  panics, whatever else the snapshot holds, so neither the remaining sections nor the new
  event loop are created.
\<close>

theorem rebuild_without_status_panics:
  "state_status (snd (fetchState (d\<lparr>StatusResult := (None, Some e)\<rparr>))) = None \<and>
   LogPrint [] (Some e) \<in> set (fst (fetchState (d\<lparr>StatusResult := (None, Some e)\<rparr>))) \<and>
   selfItem (st\<lparr>state_status := None\<rparr>) = Inr None \<and>
   rebuild attr d menu (st\<lparr>state_status := None\<rparr>) =
     ((if menu_eventCancel menu then [EventCancel] else []) @ [SystrayResetMenu],
      Inl NilPointerDereference) \<and>
   snd (rebuildFetched attr (d\<lparr>StatusResult := (None, Some e)\<rparr>) menu) =
     Inl NilPointerDereference"
proof -
  obtain cur al e' where p: "ProfileStatusResult d = (cur, al, e')"
    by (cases "ProfileStatusResult d") auto
  have f: "fetchState (d\<lparr>StatusResult := (None, Some e)\<rparr>) =
    ([ClientStatus, LogPrint [] (Some e), ClientProfileStatus] @ logIfError [] e',
     \<lparr>state_status = None, state_curProfile = cur, state_allProfiles = al\<rparr>)"
    by (simp add: fetchState_def p logIfError_def)
  have s: "selfItem (st\<lparr>state_status := None\<rparr>) = Inr None" by (simp add: selfItem_def)
  have r: "\<And>d st. state_status st = None \<Longrightarrow> rebuild attr d menu st =
     ((if menu_eventCancel menu then [EventCancel] else []) @ [SystrayResetMenu],
      Inl NilPointerDereference)"
    by (simp add: rebuild_def Let_def selfItem_def rebuildExitNodeMenu_def)
  show ?thesis
    by (simp add: f s r rebuildFetched_def)
qed

lemma exampleSelf_fields:
  "Self exampleStatus = Some exampleSelf"
  "CapMap exampleSelf = [''mullvad'', ''suggest-exit-node-ui'']"
  "TailscaleIPs exampleSelf = [''100.64.0.1'']"
  "HostName exampleSelf = ''nSELF''"
  by (simp_all add: exampleStatus_def exampleSelf_def mkPeer_def)

lemma rebuildFetched_example:
  "\<exists>m. rebuildFetched exampleAttr exampleDaemon exampleTray =
     ([ClientStatus, ClientProfileStatus, EventCancel, SystrayResetMenu, ClientSuggestExitNode,
       StartEventLoop], Inr m) \<and>
     menu_exitNodes m = Some exampleMenu \<and> menu_status m = Some exampleStatus \<and>
     menu_root m = [SlotConnect, SlotDisconnect, SlotSeparator, SlotAccounts, SlotSelf,
                    SlotSeparator, SlotExitNodes, SlotMore, SlotQuit]"
  by (simp add: rebuildFetched_def fetchState_def rebuild_def exampleDaemon_def logIfError_def
      Let_def selfItem_def exampleSelf_fields rebuildExitNodeMenu_example exampleTray_def
      newMenu_def exampleAttr_def [symmetric])

subsection \<open>The event loop\<close>




lemma rebuildFetched_ignores_command_results:
  "rebuildFetched attr (d\<lparr>EditPrefsResult := r, SetUseExitNodeResult := r'\<rparr>) menu =
   rebuildFetched attr d menu"
proof -
  have f: "fetchState (d\<lparr>EditPrefsResult := r, SetUseExitNodeResult := r'\<rparr>) = fetchState d"
    by (simp add: fetchState_def)
  have "\<And>st. rebuild attr (d\<lparr>EditPrefsResult := r, SetUseExitNodeResult := r'\<rparr>) menu st =
     rebuild attr d menu st"
  proof -
    fix st
    have s: "SuggestExitNodeResult (d\<lparr>EditPrefsResult := r, SetUseExitNodeResult := r'\<rparr>) =
      SuggestExitNodeResult d" by simp
    show "rebuild attr (d\<lparr>EditPrefsResult := r, SetUseExitNodeResult := r'\<rparr>) menu st =
     rebuild attr d menu st"
      unfolding rebuild_def s ..
  qed
  with f show ?thesis by (simp add: rebuildFetched_def)
qed

text \<open>
  Claim C6. In a tray menu as a rebuild leaves it, the selection of an exit node sends the
  daemon exactly one command: \<open>SetUseExitNode(false)\<close> for the empty id, and otherwise
  \<open>EditPrefs\<close> with the id and its set-flag and nothing else set. A failure of the command
  is logged and nothing more. Then the full rebuild runs, once, and neither it nor the
  outcome of the step depends on what the daemon answered to the command.
\<close>

theorem exit_node_selection_handled:
  assumes sel: "selectable menu"
  shows "fst (eventLoop_step attr d menu (ExitNodeSelected x)) =
       (if x = []
        then [LogPrint ''disable exit node'' None, ClientSetUseExitNode False] @
             logIfError ''failed disabling exit node'' (SetUseExitNodeResult d)
        else [LogPrint (''enable exit node: '' @ x) None,
              ClientEditPrefs (zeroPrefs\<lparr>ExitNodeID := x, ExitNodeIDSet := True\<rparr>)] @
             logIfError ''failed setting exit node'' (EditPrefsResult d)) @
       fst (rebuildFetched attr d menu) \<and>
     snd (eventLoop_step attr d menu (ExitNodeSelected x)) =
       (case snd (rebuildFetched attr d menu) of Inl e \<Rightarrow> Panicked e | Inr menu1 \<Rightarrow> Continue menu1) \<and>
     filter isCommand (fst (eventLoop_step attr d menu (ExitNodeSelected x))) =
       [if x = [] then ClientSetUseExitNode False
        else ClientEditPrefs (zeroPrefs\<lparr>ExitNodeID := x, ExitNodeIDSet := True\<rparr>)] \<and>
     count_list (fst (eventLoop_step attr d menu (ExitNodeSelected x))) ClientStatus = 1 \<and>
     count_list (fst (eventLoop_step attr d menu (ExitNodeSelected x))) SystrayResetMenu = 1 \<and>
     rebuildFetched attr (d\<lparr>EditPrefsResult := r, SetUseExitNodeResult := r'\<rparr>) menu =
       rebuildFetched attr d menu \<and>
     snd (eventLoop_step attr (d\<lparr>EditPrefsResult := r, SetUseExitNodeResult := r'\<rparr>) menu
            (ExitNodeSelected x)) =
       snd (eventLoop_step attr d menu (ExitNodeSelected x))"
proof -
  obtain calls res where rf: "rebuildFetched attr d menu = (calls, res)"
    by (cases "rebuildFetched attr d menu")
  from rebuildFetched_calls [of attr d menu] rf have c: "filter isCommand calls = []"
    "count_list calls SystrayResetMenu = 1" "count_list calls ClientStatus = 1" by simp_all
  have calls: "fst (eventLoop_step attr d menu (ExitNodeSelected x)) =
       (if x = []
        then [LogPrint ''disable exit node'' None, ClientSetUseExitNode False] @
             logIfError ''failed disabling exit node'' (SetUseExitNodeResult d)
        else [LogPrint (''enable exit node: '' @ x) None,
              ClientEditPrefs (zeroPrefs\<lparr>ExitNodeID := x, ExitNodeIDSet := True\<rparr>)] @
             logIfError ''failed setting exit node'' (EditPrefsResult d)) @
       fst (rebuildFetched attr d menu)"
    using sel by (cases res) (simp_all add: eventLoop_step_def onExitNode_def rf Let_def)
  have out: "\<And>d. snd (eventLoop_step attr d menu (ExitNodeSelected x)) =
       (case snd (rebuildFetched attr d menu) of Inl e \<Rightarrow> Panicked e | Inr menu1 \<Rightarrow> Continue menu1)"
  proof -
    fix d
    obtain calls res where "rebuildFetched attr d menu = (calls, res)"
      by (cases "rebuildFetched attr d menu")
    then show "snd (eventLoop_step attr d menu (ExitNodeSelected x)) =
       (case snd (rebuildFetched attr d menu) of Inl e \<Rightarrow> Panicked e | Inr menu1 \<Rightarrow> Continue menu1)"
      using sel by (cases res) (simp_all add: eventLoop_step_def onExitNode_def Let_def)
  qed
  have one: "filter isCommand (fst (eventLoop_step attr d menu (ExitNodeSelected x))) =
       [if x = [] then ClientSetUseExitNode False
        else ClientEditPrefs (zeroPrefs\<lparr>ExitNodeID := x, ExitNodeIDSet := True\<rparr>)]"
    unfolding calls rf using c(1) by (simp add: logIfError_commands)
  have l: "\<And>msg r c. c = ClientStatus \<or> c = SystrayResetMenu \<Longrightarrow>
             count_list (logIfError msg r) c = 0"
    by (auto simp: logIfError_def split: option.splits)
  have n1: "count_list (fst (eventLoop_step attr d menu (ExitNodeSelected x))) ClientStatus = 1"
    unfolding calls rf using c(3) by (simp add: l)
  have n2: "count_list (fst (eventLoop_step attr d menu (ExitNodeSelected x))) SystrayResetMenu = 1"
    unfolding calls rf using c(2) by (simp add: l)
  have same: "snd (eventLoop_step attr (d\<lparr>EditPrefsResult := r, SetUseExitNodeResult := r'\<rparr>) menu
            (ExitNodeSelected x)) =
       snd (eventLoop_step attr d menu (ExitNodeSelected x))"
    unfolding out rebuildFetched_ignores_command_results ..
  have indep: "rebuildFetched attr (d\<lparr>EditPrefsResult := r, SetUseExitNodeResult := r'\<rparr>) menu =
       rebuildFetched attr d menu"
    by (rule rebuildFetched_ignores_command_results)
  from calls out [of d] one n1 n2 indep same
  show ?thesis by (intro conjI)
qed

theorem exit_node_selection_handled_witness:
  "selectable exampleTray \<and>
   fst (eventLoop_step exampleAttr exampleDaemon exampleTray (ExitNodeSelected ''nBER'')) =
     [LogPrint ''enable exit node: nBER'' None,
      ClientEditPrefs (zeroPrefs\<lparr>ExitNodeID := ''nBER'', ExitNodeIDSet := True\<rparr>),
      LogPrint ''failed setting exit node'' (Some (Failure ''denied'')),
      ClientStatus, ClientProfileStatus, EventCancel, SystrayResetMenu, ClientSuggestExitNode,
      StartEventLoop] \<and>
   fst (eventLoop_step exampleAttr exampleDaemon exampleTray (ExitNodeSelected [])) =
     [LogPrint ''disable exit node'' None, ClientSetUseExitNode False,
      ClientStatus, ClientProfileStatus, EventCancel, SystrayResetMenu, ClientSuggestExitNode,
      StartEventLoop] \<and>
   (\<exists>m. snd (eventLoop_step exampleAttr exampleDaemon exampleTray (ExitNodeSelected ''nBER'')) =
          Continue m \<and> menu_exitNodes m = Some exampleMenu)"
proof -
  have sel: "selectable exampleTray" by (simp add: selectable_def exampleTray_def newMenu_def)
  from rebuildFetched_example obtain m where
    m: "rebuildFetched exampleAttr exampleDaemon exampleTray =
     ([ClientStatus, ClientProfileStatus, EventCancel, SystrayResetMenu, ClientSuggestExitNode,
       StartEventLoop], Inr m)" and x: "menu_exitNodes m = Some exampleMenu"
    by blast
  have r: "EditPrefsResult exampleDaemon = Some (Failure ''denied'')"
    "SetUseExitNodeResult exampleDaemon = None" by (simp_all add: exampleDaemon_def)
  from exit_node_selection_handled [OF sel, of exampleAttr exampleDaemon "''nBER''"]
  have a: "fst (eventLoop_step exampleAttr exampleDaemon exampleTray (ExitNodeSelected ''nBER'')) =
     [LogPrint ''enable exit node: nBER'' None,
      ClientEditPrefs (zeroPrefs\<lparr>ExitNodeID := ''nBER'', ExitNodeIDSet := True\<rparr>),
      LogPrint ''failed setting exit node'' (Some (Failure ''denied'')),
      ClientStatus, ClientProfileStatus, EventCancel, SystrayResetMenu, ClientSuggestExitNode,
      StartEventLoop]"
    and b: "\<exists>m. snd (eventLoop_step exampleAttr exampleDaemon exampleTray (ExitNodeSelected ''nBER'')) =
          Continue m \<and> menu_exitNodes m = Some exampleMenu"
    using x by (simp_all add: m r logIfError_def)
  from exit_node_selection_handled [OF sel, of exampleAttr exampleDaemon "[]"]
  have c: "fst (eventLoop_step exampleAttr exampleDaemon exampleTray (ExitNodeSelected [])) =
     [LogPrint ''disable exit node'' None, ClientSetUseExitNode False,
      ClientStatus, ClientProfileStatus, EventCancel, SystrayResetMenu, ClientSuggestExitNode,
      StartEventLoop]"
    by (simp add: m r logIfError_def)
  from sel a b c show ?thesis by (intro conjI)
qed

subsection \<open>The watcher of the daemon's notifications\<close>

lemma watch_loop_no_sleep: "count_list (fst (watch_loop ps)) (Sleep k) = 0"
  by (induction ps rule: watch_loop.induct) (auto split: prod.splits)

lemma watchIPNBusInner_no_sleep: "count_list (fst (watchIPNBusInner a)) (Sleep k) = 0"
proof -
  obtain calls r where w: "watch_loop (Polls a) = (calls, r)" by (cases "watch_loop (Polls a)")
  with watch_loop_no_sleep [of "Polls a" k] have "count_list calls (Sleep k) = 0" by simp
  then show ?thesis
    by (cases "Subscribe a"; cases r) (simp_all add: watchIPNBusInner_def w)
qed

lemma watch_loop_read_error:
  "snd (watch_loop (map Notify ns @ NextError e # later)) = Some (Some (Wrapped ''ipnbus error'' e))"
proof (induction ns)
  case Nil
  show ?case by simp
next
  case (Cons n ns)
  then show ?case by (cases n) (auto split: prod.splits)
qed

lemma watchIPNBus_step:
  assumes "watchIPNBusInner a = (calls, Some (Some e))"
  shows "watchIPNBus (a # rest) =
     (if errorsIsCanceled e
      then (calls @ [LogPrint [] (Some e), LogFatal ''watchIPNBus'' e], Fatal)
      else (calls @ [LogPrint [] (Some e), Sleep (3 * Second)] @ fst (watchIPNBus rest),
            snd (watchIPNBus rest)))"
  using assms by (cases "watchIPNBus rest") simp

lemma watchIPNBus_reconnects:
  "list_all reconnects as \<Longrightarrow>
   snd (watchIPNBus as) = Reconnecting \<and>
   count_list (fst (watchIPNBus as)) (Sleep (3 * Second)) = length as"
proof (induction as)
  case Nil
  show ?case by simp
next
  case (Cons a as)
  obtain calls r where i: "watchIPNBusInner a = (calls, r)" by (cases "watchIPNBusInner a")
  obtain calls' w where r: "watchIPNBus as = (calls', w)" by (cases "watchIPNBus as")
  from watchIPNBusInner_no_sleep [of a "3 * Second"] i
  have n: "count_list calls (Sleep (3 * Second)) = 0" by simp
  from Cons r have ih: "w = Reconnecting" "count_list calls' (Sleep (3 * Second)) = length as"
    by simp_all
  from Cons.prems i have "reconnects a" by simp
  with i consider "r = Some None" | e where "r = Some (Some e)" "\<not> errorsIsCanceled e"
    by (auto simp: reconnects_def split: option.splits)
  then show ?case
    by cases (simp_all add: i r n ih)
qed

text \<open>
  Claim C7. A failed subscription and a failed read make \<open>watchIPNBusInner\<close> return the
  error, wrapped, and the wrapping keeps whether the error stems from cancellation. After a
  call that returned the error \<open>e\<close>, \<open>watchIPNBus\<close> logs \<open>e\<close>; if \<open>e\<close> stems from
  cancellation it then ends the process with \<open>log.Fatalf\<close> and makes no further call,
  otherwise it sleeps 3 seconds and goes round again. The loop has no bound: however many
  calls come back without a cancellation, the watcher has slept 3 seconds after each of
  them and is about to call again.
\<close>

theorem watcher_retries_until_cancelled:
  "watchIPNBusInner \<lparr>Subscribe = Some e0, Polls = ps\<rparr> =
     ([ClientWatchIPNBus], Some (Some (Wrapped ''watching ipn bus'' e0))) \<and>
   snd (watchIPNBusInner \<lparr>Subscribe = None, Polls = map Notify ns @ NextError e0 # later\<rparr>) =
     Some (Some (Wrapped ''ipnbus error'' e0)) \<and>
   errorsIsCanceled (Wrapped msg e0) = errorsIsCanceled e0 \<and>
   (watchIPNBusInner a = (calls, Some (Some e)) \<longrightarrow>
      watchIPNBus (a # rest) =
        (if errorsIsCanceled e
         then (calls @ [LogPrint [] (Some e), LogFatal ''watchIPNBus'' e], Fatal)
         else (calls @ [LogPrint [] (Some e), Sleep (3 * Second)] @ fst (watchIPNBus rest),
               snd (watchIPNBus rest)))) \<and>
   (list_all reconnects as \<longrightarrow>
      snd (watchIPNBus as) = Reconnecting \<and>
      count_list (fst (watchIPNBus as)) (Sleep (3 * Second)) = length as \<and>
      (watchIPNBusInner a = (calls, Some (Some e)) \<and> errorsIsCanceled e \<longrightarrow>
         watchIPNBus (as @ a # rest) =
           (fst (watchIPNBus as) @ calls @ [LogPrint [] (Some e), LogFatal ''watchIPNBus'' e],
            Fatal)))"
proof -
  have 1: "watchIPNBusInner \<lparr>Subscribe = Some e0, Polls = ps\<rparr> =
     ([ClientWatchIPNBus], Some (Some (Wrapped ''watching ipn bus'' e0)))"
    by (simp add: watchIPNBusInner_def)
  have 2: "snd (watchIPNBusInner
                  \<lparr>Subscribe = None, Polls = map Notify ns @ NextError e0 # later\<rparr>) =
     Some (Some (Wrapped ''ipnbus error'' e0))"
  proof -
    obtain c r where w: "watch_loop (map Notify ns @ NextError e0 # later) = (c, r)"
      by (cases "watch_loop (map Notify ns @ NextError e0 # later)")
    with watch_loop_read_error [of ns e0 later]
    have "r = Some (Some (Wrapped ''ipnbus error'' e0))" by simp
    with w show ?thesis by (simp add: watchIPNBusInner_def)
  qed
  have 3: "errorsIsCanceled (Wrapped msg e0) = errorsIsCanceled e0" by simp
  have 4: "watchIPNBusInner a = (calls, Some (Some e)) \<longrightarrow>
      watchIPNBus (a # rest) =
        (if errorsIsCanceled e
         then (calls @ [LogPrint [] (Some e), LogFatal ''watchIPNBus'' e], Fatal)
         else (calls @ [LogPrint [] (Some e), Sleep (3 * Second)] @ fst (watchIPNBus rest),
               snd (watchIPNBus rest)))"
    using watchIPNBus_step by blast
  have 5: "list_all reconnects as \<longrightarrow>
      snd (watchIPNBus as) = Reconnecting \<and>
      count_list (fst (watchIPNBus as)) (Sleep (3 * Second)) = length as \<and>
      (watchIPNBusInner a = (calls, Some (Some e)) \<and> errorsIsCanceled e \<longrightarrow>
         watchIPNBus (as @ a # rest) =
           (fst (watchIPNBus as) @ calls @ [LogPrint [] (Some e), LogFatal ''watchIPNBus'' e],
            Fatal))"
  proof
    assume h: "list_all reconnects as"
    have app: "watchIPNBusInner a = (calls, Some (Some e)) \<and> errorsIsCanceled e \<Longrightarrow>
         watchIPNBus (as @ a # rest) =
           (fst (watchIPNBus as) @ calls @ [LogPrint [] (Some e), LogFatal ''watchIPNBus'' e],
            Fatal)"
      using h
    proof (induction as)
      case Nil
      then show ?case by simp
    next
      case (Cons b bs)
      obtain cb rb where i: "watchIPNBusInner b = (cb, rb)" by (cases "watchIPNBusInner b")
      from Cons.prems(2) i have "reconnects b" by simp
      with i consider "rb = Some None" | e' where "rb = Some (Some e')" "\<not> errorsIsCanceled e'"
        by (auto simp: reconnects_def split: option.splits)
      then show ?case
      proof cases
        case 1
        with Cons i show ?thesis by (simp split: prod.splits)
      next
        case 2
        with Cons i show ?thesis by (simp split: prod.splits)
      qed
    qed
    with watchIPNBus_reconnects [OF h]
    show "snd (watchIPNBus as) = Reconnecting \<and>
      count_list (fst (watchIPNBus as)) (Sleep (3 * Second)) = length as \<and>
      (watchIPNBusInner a = (calls, Some (Some e)) \<and> errorsIsCanceled e \<longrightarrow>
         watchIPNBus (as @ a # rest) =
           (fst (watchIPNBus as) @ calls @ [LogPrint [] (Some e), LogFatal ''watchIPNBus'' e],
            Fatal))"
      by blast
  qed
  from 1 2 3 4 5 show ?thesis by (intro conjI)
qed

theorem watcher_retries_until_cancelled_witness:
  "list_all reconnects [exampleRefused, exampleDropped] \<and>
   watchIPNBusInner exampleCancelled =
     ([ClientWatchIPNBus], Some (Some (Wrapped ''watching ipn bus'' Canceled))) \<and>
   errorsIsCanceled (Wrapped ''watching ipn bus'' Canceled) \<and>
   watchIPNBus [exampleRefused, exampleDropped] =
     ([ClientWatchIPNBus,
       LogPrint [] (Some (Wrapped ''watching ipn bus'' (Failure ''connection refused''))),
       Sleep 3000000000,
       ClientWatchIPNBus, SendState Running, LogPrint ''new state'' None, WatcherClose,
       LogPrint [] (Some (Wrapped ''ipnbus error'' (Failure ''EOF''))),
       Sleep 3000000000], Reconnecting) \<and>
   watchIPNBus [exampleRefused, exampleDropped, exampleCancelled, exampleRefused] =
     ([ClientWatchIPNBus,
       LogPrint [] (Some (Wrapped ''watching ipn bus'' (Failure ''connection refused''))),
       Sleep 3000000000,
       ClientWatchIPNBus, SendState Running, LogPrint ''new state'' None, WatcherClose,
       LogPrint [] (Some (Wrapped ''ipnbus error'' (Failure ''EOF''))),
       Sleep 3000000000,
       ClientWatchIPNBus,
       LogPrint [] (Some (Wrapped ''watching ipn bus'' Canceled)),
       LogFatal ''watchIPNBus'' (Wrapped ''watching ipn bus'' Canceled)], Fatal)"
proof -
  have r: "list_all reconnects [exampleRefused, exampleDropped]"
    by (simp add: reconnects_def exampleRefused_def exampleDropped_def watchIPNBusInner_def)
  have c: "watchIPNBusInner exampleCancelled =
     ([ClientWatchIPNBus], Some (Some (Wrapped ''watching ipn bus'' Canceled)))"
    by (simp add: exampleCancelled_def watchIPNBusInner_def)
  have e: "errorsIsCanceled (Wrapped ''watching ipn bus'' Canceled)" by simp
  have w: "watchIPNBus [exampleRefused, exampleDropped] =
     ([ClientWatchIPNBus,
       LogPrint [] (Some (Wrapped ''watching ipn bus'' (Failure ''connection refused''))),
       Sleep 3000000000,
       ClientWatchIPNBus, SendState Running, LogPrint ''new state'' None, WatcherClose,
       LogPrint [] (Some (Wrapped ''ipnbus error'' (Failure ''EOF''))),
       Sleep 3000000000], Reconnecting)"
    by (simp add: exampleRefused_def exampleDropped_def watchIPNBusInner_def Second_def)
  from watcher_retries_until_cancelled [where as = "[exampleRefused, exampleDropped]" and a = exampleCancelled
      and calls = "[ClientWatchIPNBus]" and e = "Wrapped ''watching ipn bus'' Canceled"
      and rest = "[exampleRefused]"] r c e
  have "watchIPNBus ([exampleRefused, exampleDropped] @ exampleCancelled # [exampleRefused]) =
           (fst (watchIPNBus [exampleRefused, exampleDropped]) @ [ClientWatchIPNBus] @
            [LogPrint [] (Some (Wrapped ''watching ipn bus'' Canceled)),
             LogFatal ''watchIPNBus'' (Wrapped ''watching ipn bus'' Canceled)], Fatal)"
    by blast
  then have f: "watchIPNBus [exampleRefused, exampleDropped, exampleCancelled, exampleRefused] =
     ([ClientWatchIPNBus,
       LogPrint [] (Some (Wrapped ''watching ipn bus'' (Failure ''connection refused''))),
       Sleep 3000000000,
       ClientWatchIPNBus, SendState Running, LogPrint ''new state'' None, WatcherClose,
       LogPrint [] (Some (Wrapped ''ipnbus error'' (Failure ''EOF''))),
       Sleep 3000000000,
       ClientWatchIPNBus,
       LogPrint [] (Some (Wrapped ''watching ipn bus'' Canceled)),
       LogFatal ''watchIPNBus'' (Wrapped ''watching ipn bus'' Canceled)], Fatal)"
    unfolding w by simp
  from r c e w f show ?thesis by (intro conjI)
qed

end
